theory Spec2Isabelle
  imports Main "HOL-Library.Sublist"
begin

section \<open>Strings and the path primitives used by the plugin\<close>

text \<open>
  The plugin (\<^verbatim>\<open>src/index.ts\<close>) manipulates JavaScript strings. A string is modelled
  as a \<^typ>\<open>string\<close>, one \<^typ>\<open>char\<close> for each code unit. The characters of HOL
  have eight bits, so the model covers the strings whose code units are below 256; all
  separators, markers and patterns the code looks at are ASCII. The functions of this section are the library
  primitives the source calls (\<^verbatim>\<open>String.prototype.split\<close>, \<^verbatim>\<open>Array.prototype.join\<close>,
  \<^verbatim>\<open>String.prototype.replace\<close> with a global pattern, and \<^verbatim>\<open>relative\<close>,
  \<^verbatim>\<open>dirname\<close>, \<^verbatim>\<open>basename\<close>, \<^verbatim>\<open>sep\<close> of the POSIX \<^verbatim>\<open>path\<close> module).
\<close>

definition sep :: char where
  "sep = CHR ''/''"

text \<open>\<^verbatim>\<open>s.split(c)\<close> for a one-character separator: the empty string gives one empty piece.\<close>

fun str_split :: "char \<Rightarrow> string \<Rightarrow> string list" where
  "str_split c [] = [[]]"
| "str_split c (x # xs) =
     (if x = c then [] # str_split c xs
      else (case str_split c xs of
              [] \<Rightarrow> [[x]]
            | y # ys \<Rightarrow> (x # y) # ys))"

text \<open>\<^verbatim>\<open>xs.join(s)\<close>.\<close>

fun str_join :: "string \<Rightarrow> string list \<Rightarrow> string" where
  "str_join s [] = []"
| "str_join s [x] = x"
| "str_join s (x # y # ys) = x @ s @ str_join s (y # ys)"

text \<open>\<^verbatim>\<open>s.replace(/-/g, "_")\<close>: every hyphen becomes an underscore.\<close>

definition replace_hyphens :: "string \<Rightarrow> string" where
  "replace_hyphens s = map (\<lambda>c. if c = CHR ''-'' then CHR ''_'' else c) s"

text \<open>
  \<^verbatim>\<open>path.resolve\<close>: a path that does not start with the separator is taken relative to
  the working directory of the process (the parameter \<open>cwd\<close>, an absolute path); then
  empty segments and \<^verbatim>\<open>.\<close> are dropped and \<^verbatim>\<open>..\<close> removes the segment before it (nothing
  at the root). The resolved path is the separator followed by the remaining segments
  joined by the separator; the model keeps the list of segments.
\<close>

definition is_absolute :: "string \<Rightarrow> bool" where
  "is_absolute p = (case p of [] \<Rightarrow> False | c # _ \<Rightarrow> c = sep)"

definition norm_step :: "string list \<Rightarrow> string \<Rightarrow> string list" where
  "norm_step acc seg =
     (if seg = [] \<or> seg = ''.'' then acc
      else if seg = ''..'' then butlast acc
      else acc @ [seg])"

definition resolve_segs :: "string \<Rightarrow> string \<Rightarrow> string list" where
  "resolve_segs cwd p =
     foldl norm_step [] (str_split sep (if is_absolute p then p else cwd @ [sep] @ p))"

definition resolve :: "string \<Rightarrow> string \<Rightarrow> string" where
  "resolve cwd p = sep # str_join [sep] (resolve_segs cwd p)"

text \<open>
  \<^verbatim>\<open>path.relative(from, to)\<close>: both paths are resolved; below their longest common
  ancestor, one \<^verbatim>\<open>..\<close> for every remaining segment of \<open>from\<close>, then the remaining
  segments of \<open>to\<close>, joined by the separator (the empty string when the two resolve to
  the same path).
\<close>

fun strip_common :: "string list \<Rightarrow> string list \<Rightarrow> string list \<times> string list" where
  "strip_common (x # xs) (y # ys) =
     (if x = y then strip_common xs ys else (x # xs, y # ys))"
| "strip_common xs ys = (xs, ys)"

definition relative :: "string \<Rightarrow> string \<Rightarrow> string \<Rightarrow> string" where
  "relative cwd from to =
     (case strip_common (resolve_segs cwd from) (resolve_segs cwd to) of
        (f, t) \<Rightarrow> str_join [sep] (replicate (length f) ''..'' @ t))"

text \<open>
  \<^verbatim>\<open>path.dirname\<close>: scanning from the right down to index 1, trailing separators are
  skipped, then the last segment; the first separator met after it ends the result.
  Without such a separator the result is the root or the current-directory marker.
\<close>

definition dirname :: "string \<Rightarrow> string" where
  "dirname path =
     (if path = [] then ''.''
      else
        let hasRoot = (hd path = sep);
            r = dropWhile (\<lambda>c. c \<noteq> sep) (dropWhile (\<lambda>c. c = sep) (rev (tl path)))
        in if r = [] then (if hasRoot then [sep] else ''.'')
           else if hasRoot \<and> length r = 1 then [sep, sep]
           else take (length r) path)"

text \<open>
  \<^verbatim>\<open>path.basename\<close> (one argument): trailing separators are skipped, the result is
  the last segment, the empty string when the path has none.
\<close>

definition basename :: "string \<Rightarrow> string" where
  "basename path =
     rev (takeWhile (\<lambda>c. c \<noteq> sep) (dropWhile (\<lambda>c. c = sep) (rev path)))"

section \<open>Identifier derivation: \<^verbatim>\<open>generateToolName\<close>\<close>

definition generateToolName :: "string \<Rightarrow> string \<Rightarrow> string \<Rightarrow> string" where
  "generateToolName cwd skillPath baseDir =
     (let rel = relative cwd baseDir skillPath;
          dirPath = dirname rel;
          components = filter (\<lambda>c. c \<noteq> ''.'') (str_split sep dirPath)
      in ''skills_'' @ replace_hyphens (str_join ''_'' components))"

section \<open>The raw header and the validation schema\<close>

text \<open>
  The raw header is what the front-matter parser returns for the YAML preamble: an
  untyped value. A key that is missing from an object reads as \<^verbatim>\<open>undefined\<close>, modelled
  by \<^const>\<open>None\<close>. An object is an association list; the keys of a JavaScript
  object are distinct, and a field is read with \<^const>\<open>map_of\<close>.
\<close>

datatype yaml =
    YNull
  | YBool bool
  | YNum int
  | YStr string
  | YArr "yaml list"
  | YObj "(string \<times> yaml) list"

text \<open>One issue of a \<^verbatim>\<open>ZodError\<close>: the path of the offending value and a message.\<close>

datatype issue = Issue (ipath: "string list") (message: string)

fun type_name :: "yaml option \<Rightarrow> string" where
  "type_name None = ''undefined''"
| "type_name (Some YNull) = ''null''"
| "type_name (Some (YBool b)) = ''boolean''"
| "type_name (Some (YNum n)) = ''number''"
| "type_name (Some (YStr s)) = ''string''"
| "type_name (Some (YArr xs)) = ''array''"
| "type_name (Some (YObj kvs)) = ''object''"

definition invalid_type :: "string \<Rightarrow> string list \<Rightarrow> yaml option \<Rightarrow> issue" where
  "invalid_type expected p v =
     Issue p (if v = None then ''Required''
              else ''Expected '' @ expected @ '', received '' @ type_name v)"

definition issues_of :: "issue list + 'a \<Rightarrow> issue list" where
  "issues_of r = (case r of Inl is \<Rightarrow> is | Inr _ \<Rightarrow> [])"

text \<open>Decimal rendering of an array index, as it appears in an issue path.\<close>

function show_nat :: "nat \<Rightarrow> string" where
  "show_nat n =
     (if n < 10 then [char_of (48 + n)]
      else show_nat (n div 10) @ [char_of (48 + n mod 10)])"
  by pat_completeness auto
termination
  by (relation "measure (\<lambda>n. n)") auto

declare show_nat.simps [simp del]

text \<open>
  The regular expression \<^verbatim>\<open>/^[a-z0-9-]+$/\<close>: one or more characters, each a lowercase
  letter, a digit or a hyphen, and nothing else.
\<close>

definition name_char :: "char \<Rightarrow> bool" where
  "name_char c =
     (let n = (of_char c :: nat)
      in (97 \<le> n \<and> n \<le> 122) \<or> (48 \<le> n \<and> n \<le> 57) \<or> n = 45)"

definition name_regex :: "string \<Rightarrow> bool" where
  "name_regex s = (s \<noteq> [] \<and> list_all name_char s)"

text \<open>String checks: each one yields its issue when it fails.\<close>

definition regex_check :: "(string \<Rightarrow> bool) \<Rightarrow> string \<Rightarrow> string list \<Rightarrow> string \<Rightarrow> issue list" where
  "regex_check re msg p s = (if re s then [] else [Issue p msg])"

definition min_check :: "nat \<Rightarrow> string \<Rightarrow> string list \<Rightarrow> string \<Rightarrow> issue list" where
  "min_check n msg p s = (if n \<le> length s then [] else [Issue p msg])"

text \<open>
  \<^verbatim>\<open>z.string()\<close> with its checks: a value that is not a string is one type issue;
  on a string every check is run and the issues are collected.
\<close>

definition z_string ::
  "(string list \<Rightarrow> string \<Rightarrow> issue list) list \<Rightarrow> string list \<Rightarrow> yaml option \<Rightarrow> issue list + string" where
  "z_string checks p v =
     (case v of
        Some (YStr s) \<Rightarrow>
          (let is = concat (map (\<lambda>chk. chk p s) checks)
           in if is = [] then Inr s else Inl is)
      | _ \<Rightarrow> Inl [invalid_type ''string'' p v])"

text \<open>\<^verbatim>\<open>.optional()\<close>: \<^verbatim>\<open>undefined\<close> is accepted, anything else goes to the inner schema.\<close>

definition z_optional ::
  "(string list \<Rightarrow> yaml option \<Rightarrow> issue list + 'a) \<Rightarrow> string list \<Rightarrow> yaml option
     \<Rightarrow> issue list + 'a option" where
  "z_optional inner p v =
     (case v of
        None \<Rightarrow> Inr None
      | Some _ \<Rightarrow> (case inner p v of Inl is \<Rightarrow> Inl is | Inr x \<Rightarrow> Inr (Some x)))"

text \<open>
  Elements of an array or values of a record, each parsed at its own path; the
  result is the list of parsed values, or all the issues.
\<close>

fun parse_each ::
  "(string list \<Rightarrow> yaml option \<Rightarrow> issue list + 'a) \<Rightarrow> (string list \<times> yaml) list
     \<Rightarrow> issue list + 'a list" where
  "parse_each inner [] = Inr []"
| "parse_each inner ((p, x) # rest) =
     (case (inner p (Some x), parse_each inner rest) of
        (Inr y, Inr ys) \<Rightarrow> Inr (y # ys)
      | (r, rs) \<Rightarrow> Inl (issues_of r @ issues_of rs))"

definition z_array ::
  "(string list \<Rightarrow> yaml option \<Rightarrow> issue list + 'a) \<Rightarrow> string list \<Rightarrow> yaml option
     \<Rightarrow> issue list + 'a list" where
  "z_array inner p v =
     (case v of
        Some (YArr xs) \<Rightarrow>
          parse_each inner (map (\<lambda>(i, x). (p @ [show_nat i], x)) (enumerate 0 xs))
      | _ \<Rightarrow> Inl [invalid_type ''array'' p v])"

definition z_record ::
  "(string list \<Rightarrow> yaml option \<Rightarrow> issue list + 'a) \<Rightarrow> string list \<Rightarrow> yaml option
     \<Rightarrow> issue list + (string \<times> 'a) list" where
  "z_record inner p v =
     (case v of
        Some (YObj kvs) \<Rightarrow>
          (case parse_each inner (map (\<lambda>(k, x). (p @ [k], x)) kvs) of
             Inl is \<Rightarrow> Inl is
           | Inr ys \<Rightarrow> Inr (zip (map fst kvs) ys))
      | _ \<Rightarrow> Inl [invalid_type ''object'' p v])"

record SkillFrontmatter =
  fm_name :: string
  fm_description :: string
  fm_license :: "string option"
  fm_allowed_tools :: "string list option"
  fm_metadata :: "(string \<times> string) list option"

text \<open>
  \<^verbatim>\<open>SkillFrontmatterSchema.parse(data)\<close>: an object schema reads each key of its shape,
  ignores every other key, and fails with the issues of all its fields.
\<close>

definition SkillFrontmatterSchema :: "yaml \<Rightarrow> issue list + SkillFrontmatter" where
  "SkillFrontmatterSchema data =
     (case data of
        YObj kvs \<Rightarrow>
          (let field = map_of kvs;
               n = z_string
                     [regex_check name_regex ''Name must be lowercase alphanumeric with hyphens'',
                      min_check 1 ''Name cannot be empty'']
                     [''name''] (field ''name'');
               d = z_string
                     [min_check 20
                        ''Description must be at least 20 characters for discoverability'']
                     [''description''] (field ''description'');
               l = z_optional (z_string []) [''license''] (field ''license'');
               a = z_optional (z_array (z_string [])) [''allowed-tools'']
                     (field ''allowed-tools'');
               m = z_optional (z_record (z_string [])) [''metadata''] (field ''metadata'')
           in case (n, d, l, a, m) of
                (Inr n', Inr d', Inr l', Inr a', Inr m') \<Rightarrow>
                  Inr \<lparr>fm_name = n', fm_description = d', fm_license = l',
                       fm_allowed_tools = a', fm_metadata = m'\<rparr>
              | _ \<Rightarrow>
                  Inl (issues_of n @ issues_of d @ issues_of l @ issues_of a @ issues_of m))
      | _ \<Rightarrow> Inl [invalid_type ''object'' [] (Some data)])"

section \<open>The bundle parser: \<^verbatim>\<open>parseSkill\<close>\<close>

record Skill =
  name :: string
  fullPath :: string
  toolName :: string
  description :: string
  allowedTools :: "string list option"
  metadata :: "(string \<times> string) list option"
  license :: "string option"
  content :: string
  path :: string

text \<open>
  What the plugin takes from its host: the working directory of the process, reading a
  file as text (\<^verbatim>\<open>Bun.file(p).text()\<close>), splitting a text into header and body
  (\<^verbatim>\<open>matter\<close>) and scanning a directory with a glob pattern. Reading and splitting
  may throw; \<^const>\<open>Inl\<close> carries the message of the exception. A scan yields paths
  and may throw after some of them.
\<close>

datatype scan_outcome = ScanDone "string list" | ScanThrew "string list"

fun yielded :: "scan_outcome \<Rightarrow> string list" where
  "yielded (ScanDone ms) = ms"
| "yielded (ScanThrew ms) = ms"

record world =
  w_cwd :: string
  w_readText :: "string \<Rightarrow> string + string"
  w_matter :: "string \<Rightarrow> string + (yaml \<times> string)"
  w_scan :: "string \<Rightarrow> string \<Rightarrow> scan_outcome"

text \<open>The console: each call with its arguments, in the order of the calls.\<close>

datatype console_arg = Str string | StrArr "string list"

datatype console_call = ConsoleError "console_arg list" | ConsoleWarn "console_arg list"

text \<open>
  The cross mark U+274C that starts the error messages. It is beyond the characters of
  the model and stands here as its three UTF-8 bytes; no property depends on it.
\<close>

definition cross_mark :: string where
  "cross_mark = [CHR 0xE2, CHR 0x9D, CHR 0x8C]"

definition nl :: string where
  "nl = [CHR 0x0A]"

definition dquote :: string where
  "dquote = [CHR 0x22]"

text \<open>
  \<^verbatim>\<open>s.trim()\<close>: white space and line terminators are removed at both ends. Below
  256 these are the code units 9 to 13, 32 and 160.
\<close>

definition is_space :: "char \<Rightarrow> bool" where
  "is_space c = ((of_char c :: nat) \<in> {9, 10, 11, 12, 13, 32, 160})"

definition trim :: "string \<Rightarrow> string" where
  "trim s = rev (dropWhile is_space (rev (dropWhile is_space s)))"

definition parseSkill :: "world \<Rightarrow> string \<Rightarrow> string \<Rightarrow> console_call list \<times> Skill option" where
  "parseSkill w skillPath baseDir =
     (let parse_error = (\<lambda>msg.
            ([ConsoleError [Str (cross_mark @ '' Error parsing skill '' @ skillPath @ '':''),
                            Str msg]], None))
      in case w_readText w skillPath of
           Inl msg \<Rightarrow> parse_error msg
         | Inr text \<Rightarrow>
             (case w_matter w text of
                Inl msg \<Rightarrow> parse_error msg
              | Inr (data, markdown) \<Rightarrow>
                  (case SkillFrontmatterSchema data of
                     Inl errors \<Rightarrow>
                       (ConsoleError
                          [Str (cross_mark @ '' Invalid frontmatter in '' @ skillPath @ '':'')]
                        # map (\<lambda>err. ConsoleError
                                 [Str (''   - '' @ str_join ''.'' (ipath err) @ '': ''
                                       @ message err)]) errors,
                        None)
                   | Inr frontmatter \<Rightarrow>
                       (let skillDir = basename (dirname skillPath)
                        in if fm_name frontmatter \<noteq> skillDir then
                             ([ConsoleError
                                 [Str (cross_mark @ '' Name mismatch in '' @ skillPath @ '':''),
                                  Str (nl @ ''   Frontmatter name: '' @ dquote
                                       @ fm_name frontmatter @ dquote),
                                  Str (nl @ ''   Directory name: '' @ dquote @ skillDir @ dquote),
                                  Str (nl @ ''   Fix: Update the '' @ [CHR 0x27]
                                       @ ''name'' @ [CHR 0x27]
                                       @ '' field in SKILL.md to match the directory name'')]],
                              None)
                           else
                             ([], Some \<lparr>name = fm_name frontmatter,
                                        fullPath = dirname skillPath,
                                        toolName = generateToolName (w_cwd w) skillPath baseDir,
                                        description = fm_description frontmatter,
                                        allowedTools = fm_allowed_tools frontmatter,
                                        metadata = fm_metadata frontmatter,
                                        license = fm_license frontmatter,
                                        content = trim markdown,
                                        path = skillPath\<rparr>)))))"

section \<open>The discovery walk: \<^verbatim>\<open>discoverSkills\<close>\<close>

text \<open>
  The inner loop over the matches of one root and the outer loop over the roots, with
  the console and the array \<^verbatim>\<open>skills\<close> passed along. An exception of the scan ends
  the inner loop of that root only; what was pushed before stays, and nothing is logged.
\<close>

fun parse_matches ::
  "world \<Rightarrow> string \<Rightarrow> string list \<Rightarrow> console_call list \<times> Skill list
     \<Rightarrow> console_call list \<times> Skill list" where
  "parse_matches w basePath [] st = st"
| "parse_matches w basePath (m # ms) (log, skills) =
     (case parseSkill w m basePath of
        (l, r) \<Rightarrow>
          parse_matches w basePath ms
            (log @ l, (case r of Some skill \<Rightarrow> skills @ [skill] | None \<Rightarrow> skills)))"

fun scan_roots ::
  "world \<Rightarrow> string list \<Rightarrow> console_call list \<times> Skill list
     \<Rightarrow> console_call list \<times> Skill list" where
  "scan_roots w [] st = st"
| "scan_roots w (basePath # rest) st =
     scan_roots w rest
       (parse_matches w basePath (yielded (w_scan w ''**/SKILL.md'' basePath)) st)"

text \<open>The loop that detects duplicate tool names, with the set and the array it fills.\<close>

fun detect_duplicates :: "Skill list \<Rightarrow> string set \<Rightarrow> string list \<Rightarrow> string list" where
  "detect_duplicates [] toolNames duplicates = duplicates"
| "detect_duplicates (skill # rest) toolNames duplicates =
     detect_duplicates rest (insert (toolName skill) toolNames)
       (if toolName skill \<in> toolNames then duplicates @ [toolName skill] else duplicates)"

definition discoverSkills :: "world \<Rightarrow> string list \<Rightarrow> console_call list \<times> Skill list" where
  "discoverSkills w basePaths =
     (case scan_roots w basePaths ([], []) of
        (log, skills) \<Rightarrow>
          (let duplicates = detect_duplicates skills {} []
           in (if duplicates \<noteq> [] then
                 log @ [ConsoleWarn [Str ''!  Duplicate tool names detected:'', StrArr duplicates]]
               else log,
               skills)))"

section \<open>Invocation: resource enumeration and rendering (\<^verbatim>\<open>execute\<close>)\<close>

text \<open>
  \<^verbatim>\<open>str.replaceAll(search, repl)\<close> with two strings. Every occurrence of \<open>search\<close>,
  found from left to right without overlap, is replaced by the expansion of \<open>repl\<close>,
  in which \<^verbatim>\<open>$$\<close> stands for a dollar sign, \<^verbatim>\<open>$&\<close> for the matched text, a dollar
  sign and a backtick for the part of \<open>str\<close> before the match and a dollar sign and an
  apostrophe for the part after it. There are no capture groups, so every other dollar
  sign stands for itself.
\<close>

fun getSubstitution :: "string \<Rightarrow> string \<Rightarrow> nat \<Rightarrow> string \<Rightarrow> string" where
  "getSubstitution matched str pos [] = []"
| "getSubstitution matched str pos [c] = [c]"
| "getSubstitution matched str pos (c # d # rest) =
     (if c = CHR ''$'' \<and> d = CHR ''$'' then CHR ''$'' # getSubstitution matched str pos rest
      else if c = CHR ''$'' \<and> d = CHR ''&'' then matched @ getSubstitution matched str pos rest
      else if c = CHR ''$'' \<and> d = CHR 0x60 then
        take pos str @ getSubstitution matched str pos rest
      else if c = CHR ''$'' \<and> d = CHR 0x27 then
        drop (pos + length matched) str @ getSubstitution matched str pos rest
      else c # getSubstitution matched str pos (d # rest))"

function replaceAll_from :: "string \<Rightarrow> string \<Rightarrow> string \<Rightarrow> nat \<Rightarrow> string" where
  "replaceAll_from str search repl pos =
     (if pos + length search \<le> length str \<and> take (length search) (drop pos str) = search then
        getSubstitution search str pos repl @
          (if search = [] then
             (if pos < length str then str ! pos # replaceAll_from str search repl (Suc pos)
              else [])
           else replaceAll_from str search repl (pos + length search))
      else if pos < length str then str ! pos # replaceAll_from str search repl (Suc pos)
      else [])"
  by pat_completeness auto
termination
  apply (relation "measure (\<lambda>(str, search, repl, pos). Suc (length str) - pos)")
     apply auto
  subgoal for str search pos
    by (cases search) auto
  done

declare replaceAll_from.simps [simp del]

definition replaceAll :: "string \<Rightarrow> string \<Rightarrow> string \<Rightarrow> string" where
  "replaceAll str search repl = replaceAll_from str search repl 0"

definition SKILL_PROMPT :: string where
  "SKILL_PROMPT =
     ''<skill name='' @ dquote @ ''%{name}'' @ dquote @ ''>'' @ nl @ nl
     @ ''%{content}'' @ nl @ nl
     @ ''</skill>''"

definition RESOURCES_PROMPT :: string where
  "RESOURCES_PROMPT =
     ''<skill_resources>'' @ nl
     @ ''IMPORTANT: The skill %{name} may reference certain resource files. Use their full paths:''
     @ nl @ nl
     @ ''%{paths}'' @ nl
     @ ''</skill_resources>''"

text \<open>The loop over the matches of \<^verbatim>\<open>**/*\<close>: every match but those named \<^verbatim>\<open>SKILL.md\<close>.\<close>

fun resource_paths :: "string list \<Rightarrow> string list \<Rightarrow> string list" where
  "resource_paths [] resourcePaths = resourcePaths"
| "resource_paths (m # ms) resourcePaths =
     (if basename m = ''SKILL.md'' then resource_paths ms resourcePaths
      else resource_paths ms (resourcePaths @ [m]))"

text \<open>The text built from the bundle and the resource paths.\<close>

definition render_prompt :: "Skill \<Rightarrow> string list \<Rightarrow> string" where
  "render_prompt skill resourcePaths =
     (let prompt =
            replaceAll
              (replaceAll (replaceAll SKILL_PROMPT ''%{name}'' (name skill))
                 ''%{fullPath}'' (fullPath skill))
              ''%{content}'' (content skill)
      in if resourcePaths \<noteq> [] then
           prompt @ nl @ nl
           @ replaceAll (replaceAll RESOURCES_PROMPT ''%{name}'' (name skill))
               ''%{paths}'' (str_join nl resourcePaths)
         else prompt)"

text \<open>
  \<^verbatim>\<open>execute\<close>: the scan is not guarded here, so an exception of the scan is the
  outcome of the call (\<^const>\<open>None\<close>).
\<close>

definition execute :: "world \<Rightarrow> Skill \<Rightarrow> string option" where
  "execute w skill =
     (case w_scan w ''**/*'' (fullPath skill) of
        ScanThrew ms \<Rightarrow> None
      | ScanDone ms \<Rightarrow> Some (render_prompt skill (resource_paths ms [])))"

section \<open>The scan of a directory: \<^verbatim>\<open>Glob\<close>\<close>

text \<open>
  The scan of the host seen over a file system. The file system is the list of its
  files, each the list of the segments of its absolute path, in the order in which a
  traversal meets them. A pattern is split at the separator; the segment \<^verbatim>\<open>**\<close> stands
  for any number of directories, \<^verbatim>\<open>*\<close> for one name, any other segment of the two
  patterns of the plugin for itself. The plugin passes the options \<^verbatim>\<open>cwd\<close> and
  \<^verbatim>\<open>absolute\<close> only, so the option \<^verbatim>\<open>dot\<close> has its default: a wildcard does not match a
  name that begins with a period, and only files are yielded, by their absolute paths.
\<close>

datatype glob_seg = GlobStar | Star | Lit string

definition glob_seg_of :: "string \<Rightarrow> glob_seg" where
  "glob_seg_of s = (if s = ''**'' then GlobStar else if s = ''*'' then Star else Lit s)"

definition parse_glob :: "string \<Rightarrow> glob_seg list" where
  "parse_glob pattern = map glob_seg_of (str_split sep pattern)"

definition hidden :: "string \<Rightarrow> bool" where
  "hidden s = (case s of [] \<Rightarrow> False | c # _ \<Rightarrow> c = CHR ''.'')"

fun glob_match :: "glob_seg list \<Rightarrow> string list \<Rightarrow> bool" where
  "glob_match [] [] = True"
| "glob_match [] (s # ss) = False"
| "glob_match (GlobStar # ps) [] = glob_match ps []"
| "glob_match (GlobStar # ps) (s # ss) =
     (glob_match ps (s # ss) \<or> (\<not> hidden s \<and> glob_match (GlobStar # ps) ss))"
| "glob_match (Star # ps) [] = False"
| "glob_match (Star # ps) (s # ss) = (\<not> hidden s \<and> glob_match ps ss)"
| "glob_match (Lit l # ps) [] = False"
| "glob_match (Lit l # ps) (s # ss) = (s = l \<and> glob_match ps ss)"

definition abs_path :: "string list \<Rightarrow> string" where
  "abs_path segs = sep # str_join [sep] segs"

definition glob_scan :: "string \<Rightarrow> string list list \<Rightarrow> string \<Rightarrow> string \<Rightarrow> string list" where
  "glob_scan cwd files pattern dir =
     (let d = resolve_segs cwd dir
      in map abs_path
           (filter (\<lambda>f. take (length d) f = d
                        \<and> glob_match (parse_glob pattern) (drop (length d) f)) files))"

text \<open>
  A bundle directory with its metadata file, two resources, a metadata file further
  down, a hidden file and a file in a hidden directory.
\<close>

definition demo_files :: "string list list" where
  "demo_files =
     [[''r'', ''skills'', ''demo'', ''SKILL.md''],
      [''r'', ''skills'', ''demo'', ''notes.txt''],
      [''r'', ''skills'', ''demo'', ''scripts'', ''helper.py''],
      [''r'', ''skills'', ''demo'', ''a'', ''b'', ''SKILL.md''],
      [''r'', ''skills'', ''demo'', ''.env''],
      [''r'', ''skills'', ''demo'', ''.git'', ''config'']]"

section \<open>Notions used to state the properties\<close>

text \<open>
  A segment of a resolved path: not empty, without separator, and neither of the two
  directory markers.
\<close>

definition proper_seg :: "string \<Rightarrow> bool" where
  "proper_seg s = (s \<noteq> [] \<and> sep \<notin> set s \<and> s \<noteq> ''.'' \<and> s \<noteq> ''..'')"

text \<open>
  The failure condition of the schema as the specification words it: the name fails
  the pattern or is empty, the description is shorter than 20, \<^verbatim>\<open>allowed-tools\<close> is
  present but not a sequence of strings, \<^verbatim>\<open>metadata\<close> is present but not a flat map
  from strings to strings. A header that is no key/value structure, and a name or
  description that is missing or no string, are counted as failing.
\<close>

definition is_str :: "yaml \<Rightarrow> bool" where
  "is_str v = (case v of YStr _ \<Rightarrow> True | _ \<Rightarrow> False)"

definition name_fails :: "yaml option \<Rightarrow> bool" where
  "name_fails v = (case v of Some (YStr s) \<Rightarrow> \<not> name_regex s \<or> s = [] | _ \<Rightarrow> True)"

definition description_short :: "yaml option \<Rightarrow> bool" where
  "description_short v = (case v of Some (YStr s) \<Rightarrow> length s < 20 | _ \<Rightarrow> True)"

definition tools_wrong :: "yaml option \<Rightarrow> bool" where
  "tools_wrong v =
     (case v of None \<Rightarrow> False | Some (YArr xs) \<Rightarrow> \<not> list_all is_str xs | Some _ \<Rightarrow> True)"

definition metadata_wrong :: "yaml option \<Rightarrow> bool" where
  "metadata_wrong v =
     (case v of
        None \<Rightarrow> False
      | Some (YObj kvs) \<Rightarrow> \<not> list_all (\<lambda>kv. is_str (snd kv)) kvs
      | Some _ \<Rightarrow> True)"

definition spec_schema_error :: "yaml \<Rightarrow> bool" where
  "spec_schema_error data =
     (case data of
        YObj kvs \<Rightarrow>
          name_fails (map_of kvs ''name'') \<or> description_short (map_of kvs ''description'')
          \<or> tools_wrong (map_of kvs ''allowed-tools'') \<or> metadata_wrong (map_of kvs ''metadata'')
      | _ \<Rightarrow> True)"

text \<open>The condition the schema adds: \<^verbatim>\<open>license\<close> is present but not a string.\<close>

definition license_wrong :: "yaml \<Rightarrow> bool" where
  "license_wrong data =
     (case data of
        YObj kvs \<Rightarrow>
          (case map_of kvs ''license'' of None \<Rightarrow> False | Some v \<Rightarrow> \<not> is_str v)
      | _ \<Rightarrow> False)"

fun is_warn :: "console_call \<Rightarrow> bool" where
  "is_warn (ConsoleWarn args) = True"
| "is_warn (ConsoleError args) = False"

text \<open>
  The end-to-end example of the specification, as a host: every scanned root holds a
  directory \<^verbatim>\<open>demo\<close> with a metadata file (name \<^verbatim>\<open>demo\<close>, body \<^verbatim>\<open># Hello\<close>) and a file
  \<^verbatim>\<open>notes.txt\<close>.
\<close>

definition demo_header :: yaml where
  "demo_header =
     YObj [(''name'', YStr ''demo''),
           (''description'', YStr ''A demo skill for testing purposes.'')]"

definition demo_world :: world where
  "demo_world =
     \<lparr>w_cwd = ''/w'',
      w_readText = (\<lambda>p. Inr ''(text of the metadata file)''),
      w_matter = (\<lambda>t. Inr (demo_header, nl @ ''# Hello'' @ nl)),
      w_scan = (\<lambda>pat dir.
         if pat = ''**/SKILL.md'' then ScanDone [dir @ ''/demo/SKILL.md'']
         else ScanDone [dir @ ''/SKILL.md'', dir @ ''/notes.txt''])\<rparr>"

text \<open>The mismatch example: a header with name \<^verbatim>\<open>foo\<close> in a directory named \<^verbatim>\<open>bar\<close>.\<close>

definition foo_header :: yaml where
  "foo_header =
     YObj [(''name'', YStr ''foo''),
           (''description'', YStr ''A skill whose name is not its directory.'')]"

definition mismatch_world :: world where
  "mismatch_world =
     \<lparr>w_cwd = ''/w'',
      w_readText = (\<lambda>p. Inr ''(text of the metadata file)''),
      w_matter = (\<lambda>t. Inr (foo_header, ''body'')),
      w_scan = (\<lambda>pat dir. ScanDone [dir @ ''/bar/SKILL.md''])\<rparr>"

section \<open>Facts about the string and path primitives\<close>

lemma str_split_not_Nil: "str_split c s \<noteq> []"
  by (induction s) (auto split: list.splits)

lemma str_split_free: "x \<in> set (str_split c s) \<Longrightarrow> c \<notin> set x"
  by (induction s arbitrary: x) (auto split: list.splits if_splits)

lemma str_split_free_single: "c \<notin> set s \<Longrightarrow> str_split c s = [s]"
  by (induction s) auto

lemma str_split_append:
  "str_split c (a @ c # b) = str_split c a @ str_split c b"
  by (induction a) (auto split: list.splits simp: str_split_not_Nil)

lemma str_split_free_append:
  "c \<notin> set a \<Longrightarrow> str_split c (a @ c # b) = a # str_split c b"
  by (induction a) (auto split: list.splits simp: str_split_not_Nil)

lemma str_split_join:
  "xs \<noteq> [] \<Longrightarrow> list_all (\<lambda>x. c \<notin> set x) xs \<Longrightarrow> str_split c (str_join [c] xs) = xs"
  by (induction "[c]" xs rule: str_join.induct)
     (auto simp: str_split_free_single str_split_free_append)

lemma norm_step_proper:
  "list_all proper_seg acc \<Longrightarrow> sep \<notin> set x \<Longrightarrow> list_all proper_seg (norm_step acc x)"
  by (auto simp: norm_step_def proper_seg_def list_all_iff dest: in_set_butlastD)

lemma foldl_norm_step_proper:
  "list_all proper_seg acc \<Longrightarrow> list_all (\<lambda>x. sep \<notin> set x) xs \<Longrightarrow>
   list_all proper_seg (foldl norm_step acc xs)"
  by (induction xs arbitrary: acc) (auto simp: norm_step_proper)

lemma resolve_segs_proper: "list_all proper_seg (resolve_segs cwd p)"
  unfolding resolve_segs_def
  by (rule foldl_norm_step_proper) (auto simp: list_all_iff dest: str_split_free)

lemma strip_common_prefix: "strip_common xs (xs @ ys) = ([], ys)"
proof (induction xs)
  case Nil
  show ?case by (cases ys) simp_all
next
  case (Cons a xs)
  then show ?case by simp
qed

lemma relative_ancestor:
  "resolve_segs cwd to = resolve_segs cwd from @ t \<Longrightarrow> relative cwd from to = str_join [sep] t"
  by (simp add: relative_def strip_common_prefix)

lemma str_join_snoc:
  "xs \<noteq> [] \<Longrightarrow> str_join s (xs @ [x]) = str_join s xs @ s @ x"
  by (induction s xs rule: str_join.induct) auto

lemma str_join_not_Nil:
  "xs \<noteq> [] \<Longrightarrow> list_all (\<lambda>x. x \<noteq> []) xs \<Longrightarrow> str_join s xs \<noteq> []"
  by (induction s xs rule: str_join.induct) auto

lemma hd_str_join:
  "xs \<noteq> [] \<Longrightarrow> list_all (\<lambda>x. x \<noteq> []) xs \<Longrightarrow> hd (str_join s xs) = hd (hd xs)"
  by (induction s xs rule: str_join.induct) auto

lemma dirname_single:
  assumes "f \<noteq> []" "sep \<notin> set f"
  shows "dirname f = ''.''"
proof -
  have "set (tl f) \<subseteq> set f" using assms(1) by (cases f) auto
  then have a: "\<forall>c \<in> set (rev (tl f)). c \<noteq> sep" using assms(2) by auto
  then have "dropWhile (\<lambda>c. c = sep) (rev (tl f)) = rev (tl f)"
    by (cases "rev (tl f)") auto
  moreover have "dropWhile (\<lambda>c. c \<noteq> sep) (rev (tl f)) = []"
    using a by simp
  moreover have "hd f \<noteq> sep" using assms by (cases f) auto
  ultimately show ?thesis using assms(1) by (simp add: dirname_def)
qed

lemma dirname_snoc:
  assumes "d \<noteq> []" "hd d \<noteq> sep" "f \<noteq> []" "sep \<notin> set f"
  shows "dirname (d @ sep # f) = d"
proof -
  let ?p = "d @ sep # f"
  have tl: "tl ?p = tl d @ sep # f" using assms(1) by (cases d) auto
  have rv: "rev (tl ?p) = rev f @ sep # rev (tl d)" by (simp add: tl)
  have "last f \<in> set f" using assms(3) by simp
  then have "last f \<noteq> sep" using assms(4) by metis
  then have hdne: "hd (rev f) \<noteq> sep" "rev f \<noteq> []"
    using assms(3) by (simp_all add: hd_rev)
  then have d1: "dropWhile (\<lambda>c. c = sep) (rev (tl ?p)) = rev f @ sep # rev (tl d)"
    unfolding rv by (cases "rev f") auto
  have d2: "dropWhile (\<lambda>c. c \<noteq> sep) (rev f @ sep # rev (tl d)) = sep # rev (tl d)"
    using assms(4) by (auto simp: dropWhile_append3)
  have len: "length (sep # rev (tl d)) = length d" using assms(1) by (cases d) auto
  have "hd ?p \<noteq> sep" using assms(1,2) by (cases d) auto
  then show ?thesis
    using d1 d2 len by (simp add: dirname_def Let_def)
qed

lemma dirname_join:
  assumes "list_all proper_seg (ds @ [f])"
  shows "dirname (str_join [sep] (ds @ [f])) = (if ds = [] then ''.'' else str_join [sep] ds)"
proof (cases "ds = []")
  case True
  then show ?thesis using assms by (simp add: dirname_single proper_seg_def)
next
  case False
  have ne: "list_all (\<lambda>x. x \<noteq> []) ds" using assms by (auto simp: list_all_iff proper_seg_def)
  have "hd ds \<in> set ds" using False by simp
  then have hp: "proper_seg (hd ds)" using assms by (simp add: list_all_iff)
  then have "hd (hd ds) \<in> set (hd ds)" by (simp add: proper_seg_def)
  then have "hd (hd ds) \<noteq> sep" using hp by (metis proper_seg_def)
  then have "hd (str_join [sep] ds) \<noteq> sep" using False ne by (simp add: hd_str_join)
  moreover have "str_join [sep] ds \<noteq> []" using False ne by (rule str_join_not_Nil)
  ultimately show ?thesis
    using False assms by (simp add: str_join_snoc dirname_snoc proper_seg_def)
qed

lemma replace_hyphens_join:
  "replace_hyphens (str_join ''_'' xs) = str_join ''_'' (map replace_hyphens xs)"
  by (induction "''_''" xs rule: str_join.induct) (auto simp: replace_hyphens_def)

lemma generateToolName_chain:
  assumes "resolve_segs cwd skillPath = resolve_segs cwd baseDir @ ds @ [f]"
  shows "generateToolName cwd skillPath baseDir = ''skills_'' @ str_join ''_'' (map replace_hyphens ds)"
proof -
  have p: "list_all proper_seg (resolve_segs cwd baseDir @ ds @ [f])"
    using resolve_segs_proper [of cwd skillPath] assms by simp
  then have pds: "list_all proper_seg (ds @ [f])" by simp
  have rel: "relative cwd baseDir skillPath = str_join [sep] (ds @ [f])"
    using assms by (rule relative_ancestor)
  have dn: "dirname (relative cwd baseDir skillPath) = (if ds = [] then ''.'' else str_join [sep] ds)"
    unfolding rel using pds by (rule dirname_join)
  have free: "list_all (\<lambda>x. sep \<notin> set x) ds" and nodot: "list_all (\<lambda>x. x \<noteq> ''.'') ds"
    using pds by (auto simp: list_all_iff proper_seg_def)
  have flt: "filter (\<lambda>c. c \<noteq> ''.'') ds = ds"
    using nodot by (simp add: list_all_iff)
  have comp: "filter (\<lambda>c. c \<noteq> ''.'') (str_split sep (dirname (relative cwd baseDir skillPath))) = ds"
  proof (cases "ds = []")
    case True
    then show ?thesis by (simp add: dn sep_def)
  next
    case False
    then show ?thesis using free flt by (simp add: dn str_split_join)
  qed
  show ?thesis
    by (simp add: generateToolName_def Let_def comp replace_hyphens_join)
qed

section \<open>Properties of the identifier derivation\<close>

text \<open>
  Claim C1. Whenever the root is an ancestor of the metadata file, that is, the resolved
  file path is the resolved root followed by a chain of directories \<open>ds\<close> and a file
  name \<open>f\<close>, the identifier is the prefix \<^verbatim>\<open>skills_\<close> followed by the directories of the
  chain, every hyphen replaced by an underscore, joined with underscores. The result
  is a function of the two paths. In particular the root \<^verbatim>\<open>/p/.tool/skills\<close> with the
  file \<^verbatim>\<open>/p/.tool/skills/document-skills/docx/META.md\<close> gives
  \<^verbatim>\<open>skills_document_skills_docx\<close>.
\<close>

theorem generateToolName_spec:
  "(resolve_segs cwd skillPath = resolve_segs cwd baseDir @ ds @ [f] \<longrightarrow>
      generateToolName cwd skillPath baseDir
        = ''skills_'' @ str_join ''_'' (map replace_hyphens ds))
   \<and> generateToolName cwd ''/p/.tool/skills/document-skills/docx/META.md'' ''/p/.tool/skills''
        = ''skills_document_skills_docx''"
proof
  show "resolve_segs cwd skillPath = resolve_segs cwd baseDir @ ds @ [f] \<longrightarrow>
      generateToolName cwd skillPath baseDir
        = ''skills_'' @ str_join ''_'' (map replace_hyphens ds)"
    by (simp add: generateToolName_chain)
next
  have "resolve_segs cwd ''/p/.tool/skills/document-skills/docx/META.md''
          = resolve_segs cwd ''/p/.tool/skills'' @ [''document-skills'', ''docx''] @ [''META.md'']"
    by (simp add: resolve_segs_def is_absolute_def sep_def norm_step_def)
  then show "generateToolName cwd ''/p/.tool/skills/document-skills/docx/META.md''
      ''/p/.tool/skills'' = ''skills_document_skills_docx''"
    by (simp add: generateToolName_chain replace_hyphens_def)
qed

theorem generateToolName_spec_witness:
  "resolve_segs ''/w'' ''/r/skills/brand-guidelines/SKILL.md''
     = resolve_segs ''/w'' ''/r/skills'' @ [''brand-guidelines''] @ [''SKILL.md'']
   \<and> generateToolName ''/w'' ''/r/skills/brand-guidelines/SKILL.md'' ''/r/skills''
     = ''skills_brand_guidelines''"
proof -
  have h: "resolve_segs ''/w'' ''/r/skills/brand-guidelines/SKILL.md''
     = resolve_segs ''/w'' ''/r/skills'' @ [''brand-guidelines''] @ [''SKILL.md'']"
    by (simp add: resolve_segs_def is_absolute_def sep_def norm_step_def)
  from generateToolName_spec
    [of "''/w''" "''/r/skills/brand-guidelines/SKILL.md''" "''/r/skills''"
        "[''brand-guidelines'']" "''SKILL.md''"]
  have "generateToolName ''/w'' ''/r/skills/brand-guidelines/SKILL.md'' ''/r/skills''
     = ''skills_'' @ str_join ''_'' (map replace_hyphens [''brand-guidelines''])"
    using h by blast
  then show ?thesis using h by (simp add: replace_hyphens_def)
qed

lemma resolve_segs_child:
  assumes "is_absolute baseDir" "proper_seg f"
  shows "resolve_segs cwd (baseDir @ sep # f) = resolve_segs cwd baseDir @ [f]"
proof -
  have abs: "is_absolute (baseDir @ sep # f)"
    using assms(1) by (cases baseDir) (simp_all add: is_absolute_def)
  have "str_split sep (baseDir @ sep # f) = str_split sep baseDir @ [f]"
    using assms(2) by (simp add: str_split_append str_split_free_single proper_seg_def)
  then show ?thesis
    using abs assms by (simp add: resolve_segs_def norm_step_def proper_seg_def)
qed

lemma replace_hyphens_id: "CHR ''-'' \<notin> set s \<Longrightarrow> replace_hyphens s = s"
  by (induction s) (auto simp: replace_hyphens_def)

lemma str_join_inj:
  assumes "list_all (\<lambda>x. x \<noteq> [] \<and> c \<notin> set x) xs" "list_all (\<lambda>x. x \<noteq> [] \<and> c \<notin> set x) ys"
    and "str_join [c] xs = str_join [c] ys"
  shows "xs = ys"
proof (cases "xs = [] \<or> ys = []")
  case True
  then show ?thesis
  proof
    assume "xs = []"
    show ?thesis
    proof (rule ccontr)
      assume "xs \<noteq> ys"
      then have "ys \<noteq> []" using \<open>xs = []\<close> by simp
      moreover have "list_all (\<lambda>x. x \<noteq> []) ys" using assms(2) by (simp add: list_all_iff)
      ultimately have "str_join [c] ys \<noteq> []" by (rule str_join_not_Nil)
      then show False using assms(3) \<open>xs = []\<close> by simp
    qed
  next
    assume "ys = []"
    show ?thesis
    proof (rule ccontr)
      assume "xs \<noteq> ys"
      then have "xs \<noteq> []" using \<open>ys = []\<close> by simp
      moreover have "list_all (\<lambda>x. x \<noteq> []) xs" using assms(1) by (simp add: list_all_iff)
      ultimately have "str_join [c] xs \<noteq> []" by (rule str_join_not_Nil)
      then show False using assms(3) \<open>ys = []\<close> by simp
    qed
  qed
next
  case False
  have fx: "list_all (\<lambda>x. c \<notin> set x) xs" and fy: "list_all (\<lambda>x. c \<notin> set x) ys"
    using assms(1,2) by (simp_all add: list_all_iff)
  have "xs = str_split c (str_join [c] xs)" using False fx by (simp add: str_split_join)
  also have "\<dots> = str_split c (str_join [c] ys)" using assms(3) by simp
  also have "\<dots> = ys" using False fy by (simp add: str_split_join)
  finally show ?thesis .
qed

text \<open>
  Claim C10. A metadata file that lies directly in a discovery root (an absolute root
  path, a separator and a file name) gets the bare prefix \<^verbatim>\<open>skills_\<close> as identifier:
  the directory chain is the current-directory marker alone, which is discarded. Hence
  top-level metadata files of different roots share one identifier.
\<close>

theorem top_level_identifier:
  assumes "is_absolute root1" "proper_seg f1" "is_absolute root2" "proper_seg f2"
  shows "generateToolName cwd (root1 @ [sep] @ f1) root1 = ''skills_''
       \<and> generateToolName cwd (root2 @ [sep] @ f2) root2
           = generateToolName cwd (root1 @ [sep] @ f1) root1"
proof -
  have "resolve_segs cwd (root1 @ [sep] @ f1) = resolve_segs cwd root1 @ [] @ [f1]"
       "resolve_segs cwd (root2 @ [sep] @ f2) = resolve_segs cwd root2 @ [] @ [f2]"
    using assms by (simp_all add: resolve_segs_child)
  then have "generateToolName cwd (root1 @ [sep] @ f1) root1 = ''skills_''"
       "generateToolName cwd (root2 @ [sep] @ f2) root2 = ''skills_''"
    by (simp_all only: generateToolName_chain list.map str_join.simps append_Nil2)
  then show ?thesis by simp
qed

theorem top_level_identifier_witness:
  "is_absolute ''/p/.opencode/skills'' \<and> proper_seg ''SKILL.md''
   \<and> is_absolute ''/home/u/.opencode/skills''
   \<and> generateToolName ''/w'' ''/p/.opencode/skills/SKILL.md'' ''/p/.opencode/skills'' = ''skills_''
   \<and> generateToolName ''/w'' ''/home/u/.opencode/skills/SKILL.md'' ''/home/u/.opencode/skills''
       = generateToolName ''/w'' ''/p/.opencode/skills/SKILL.md'' ''/p/.opencode/skills''"
proof -
  have a: "is_absolute ''/p/.opencode/skills''" "is_absolute ''/home/u/.opencode/skills''"
    by (simp_all add: is_absolute_def sep_def)
  have b: "proper_seg ''SKILL.md''" by (simp add: proper_seg_def sep_def)
  show ?thesis
    using top_level_identifier [OF a(1) b a(2) b, of "''/w''"] a b by (simp add: sep_def)
qed

text \<open>
  Claim C8, as amended. Under a fixed root, two directory chains get the same identifier
  exactly when they agree after their segments are joined with underscores and every
  hyphen is replaced by an underscore. Chains whose segments contain neither a hyphen
  nor an underscore get different identifiers whenever they differ. The claim as stated
  fails: the chains \<^verbatim>\<open>a-b/c\<close> and \<^verbatim>\<open>a/b-c\<close> remain different chains when the hyphens
  are replaced in their segments, and both get \<^verbatim>\<open>skills_a_b_c\<close>, because the segment
  separator becomes an underscore as well.
\<close>

theorem identifier_collisions:
  assumes "resolve_segs cwd p1 = resolve_segs cwd root @ ds1 @ [f1]"
    and "resolve_segs cwd p2 = resolve_segs cwd root @ ds2 @ [f2]"
  shows "((generateToolName cwd p1 root = generateToolName cwd p2 root)
           = (replace_hyphens (str_join ''_'' ds1) = replace_hyphens (str_join ''_'' ds2)))
       \<and> (list_all (\<lambda>s. CHR ''-'' \<notin> set s \<and> CHR ''_'' \<notin> set s) (ds1 @ ds2) \<longrightarrow>
            (generateToolName cwd p1 root = generateToolName cwd p2 root) = (ds1 = ds2))"
proof -
  have g1: "generateToolName cwd p1 root = ''skills_'' @ replace_hyphens (str_join ''_'' ds1)"
    and g2: "generateToolName cwd p2 root = ''skills_'' @ replace_hyphens (str_join ''_'' ds2)"
    using assms by (simp_all add: generateToolName_chain replace_hyphens_join)
  have first: "(generateToolName cwd p1 root = generateToolName cwd p2 root)
           = (replace_hyphens (str_join ''_'' ds1) = replace_hyphens (str_join ''_'' ds2))"
    by (simp add: g1 g2)
  have second: "(generateToolName cwd p1 root = generateToolName cwd p2 root) = (ds1 = ds2)"
    if plain: "list_all (\<lambda>s. CHR ''-'' \<notin> set s \<and> CHR ''_'' \<notin> set s) (ds1 @ ds2)"
  proof -
    have p1: "list_all proper_seg (ds1 @ [f1])"
      using resolve_segs_proper [of cwd p1] assms(1) by simp
    have p2: "list_all proper_seg (ds2 @ [f2])"
      using resolve_segs_proper [of cwd p2] assms(2) by simp
    have n1: "list_all (\<lambda>x. x \<noteq> [] \<and> CHR ''_'' \<notin> set x) ds1"
      and n2: "list_all (\<lambda>x. x \<noteq> [] \<and> CHR ''_'' \<notin> set x) ds2"
      using p1 p2 plain by (auto simp: list_all_iff proper_seg_def)
    have h1: "map replace_hyphens ds1 = ds1" and h2: "map replace_hyphens ds2 = ds2"
      using plain by (auto simp: list_all_iff replace_hyphens_id map_idI)
    have "(str_join ''_'' ds1 = str_join ''_'' ds2) = (ds1 = ds2)"
      using str_join_inj [OF n1 n2] by auto
    then show ?thesis
      by (simp add: g1 g2 replace_hyphens_join h1 h2)
  qed
  show ?thesis using first second by blast
qed

theorem identifier_collisions_witness:
  "resolve_segs ''/w'' ''/r/skills/tools/analyzer/SKILL.md''
      = resolve_segs ''/w'' ''/r/skills'' @ [''tools'', ''analyzer''] @ [''SKILL.md'']
   \<and> resolve_segs ''/w'' ''/r/skills/tools/linter/SKILL.md''
      = resolve_segs ''/w'' ''/r/skills'' @ [''tools'', ''linter''] @ [''SKILL.md'']
   \<and> list_all (\<lambda>s. CHR ''-'' \<notin> set s \<and> CHR ''_'' \<notin> set s)
        ([''tools'', ''analyzer''] @ [''tools'', ''linter''])
   \<and> generateToolName ''/w'' ''/r/skills/tools/analyzer/SKILL.md'' ''/r/skills''
      \<noteq> generateToolName ''/w'' ''/r/skills/tools/linter/SKILL.md'' ''/r/skills''"
proof -
  have h1: "resolve_segs ''/w'' ''/r/skills/tools/analyzer/SKILL.md''
      = resolve_segs ''/w'' ''/r/skills'' @ [''tools'', ''analyzer''] @ [''SKILL.md'']"
    and h2: "resolve_segs ''/w'' ''/r/skills/tools/linter/SKILL.md''
      = resolve_segs ''/w'' ''/r/skills'' @ [''tools'', ''linter''] @ [''SKILL.md'']"
    by (simp_all add: resolve_segs_def is_absolute_def sep_def norm_step_def)
  have h3: "list_all (\<lambda>s. CHR ''-'' \<notin> set s \<and> CHR ''_'' \<notin> set s)
        ([''tools'', ''analyzer''] @ [''tools'', ''linter''])"
    by simp
  have ne: "[''tools'', ''analyzer''] \<noteq> [''tools'', ''linter'']" by simp
  from identifier_collisions [OF h1 h2] h3 ne
  have "generateToolName ''/w'' ''/r/skills/tools/analyzer/SKILL.md'' ''/r/skills''
      \<noteq> generateToolName ''/w'' ''/r/skills/tools/linter/SKILL.md'' ''/r/skills''"
    by blast
  then show ?thesis using h1 h2 h3 by blast
qed

theorem identifier_collisions_counterexample:
  "resolve_segs ''/w'' ''/r/skills/a-b/c/SKILL.md''
      = resolve_segs ''/w'' ''/r/skills'' @ [''a-b'', ''c''] @ [''SKILL.md'']
   \<and> resolve_segs ''/w'' ''/r/skills/a/b-c/SKILL.md''
      = resolve_segs ''/w'' ''/r/skills'' @ [''a'', ''b-c''] @ [''SKILL.md'']
   \<and> map replace_hyphens [''a-b'', ''c''] \<noteq> map replace_hyphens [''a'', ''b-c'']
   \<and> generateToolName ''/w'' ''/r/skills/a-b/c/SKILL.md'' ''/r/skills''
      = generateToolName ''/w'' ''/r/skills/a/b-c/SKILL.md'' ''/r/skills''"
  by (simp add: generateToolName_def relative_def resolve_segs_def is_absolute_def sep_def
        norm_step_def dirname_def replace_hyphens_def)

section \<open>Properties of the schema\<close>

lemma name_check_isl:
  "isl (z_string [regex_check name_regex m1, min_check 1 m2] p v) = name_fails v"
  by (cases v)
     (auto simp: z_string_def name_fails_def regex_check_def min_check_def Let_def
        not_le less_Suc_eq_0_disj split: yaml.splits)

lemma description_check_isl:
  "isl (z_string [min_check 20 m] p v) = description_short v"
  by (auto simp: z_string_def description_short_def min_check_def Let_def
        split: option.splits yaml.splits)

lemma plain_string_isl: "isl (z_string [] p (Some x)) = (\<not> is_str x)"
  by (simp add: z_string_def is_str_def split: yaml.splits)

lemma parse_each_isl:
  "isl (parse_each (z_string []) ps) = (\<not> list_all (\<lambda>px. is_str (snd px)) ps)"
proof (induction ps)
  case Nil
  show ?case by simp
next
  case (Cons a ps)
  obtain p x where a: "a = (p, x)" by (cases a)
  show ?case
    using Cons plain_string_isl [of p x]
    by (auto simp: a split: sum.splits)
qed

lemma license_check_isl:
  "isl (z_optional (z_string []) p v) = (case v of None \<Rightarrow> False | Some x \<Rightarrow> \<not> is_str x)"
  by (cases v) (auto simp: z_optional_def z_string_def is_str_def split: sum.splits yaml.splits)

lemma tools_check_isl:
  "isl (z_optional (z_array (z_string [])) p v) = tools_wrong v"
proof (cases v)
  case None
  then show ?thesis by (simp add: z_optional_def tools_wrong_def)
next
  case (Some x)
  have arr: "isl (z_array (z_string []) p (Some (YArr xs))) = (\<not> list_all is_str xs)" for xs
  proof -
    have "list_all (\<lambda>px. is_str (snd px)) (map (\<lambda>(i, x). (p @ [show_nat i], x)) (enumerate n xs))
           = list_all is_str xs" for n
      by (induction xs arbitrary: n) auto
    then show ?thesis by (simp add: z_array_def parse_each_isl)
  qed
  show ?thesis
  proof (cases x)
    case (YArr xs)
    then show ?thesis
      using arr [of xs] Some by (auto simp: z_optional_def tools_wrong_def split: sum.splits)
  qed (simp_all add: Some z_optional_def z_array_def tools_wrong_def)
qed

lemma metadata_check_isl:
  "isl (z_optional (z_record (z_string [])) p v) = metadata_wrong v"
proof (cases v)
  case None
  then show ?thesis by (simp add: z_optional_def metadata_wrong_def)
next
  case (Some x)
  have obj: "isl (z_record (z_string []) p (Some (YObj kvs)))
               = (\<not> list_all (\<lambda>kv. is_str (snd kv)) kvs)" for kvs
  proof -
    have "list_all (\<lambda>px. is_str (snd px)) (map (\<lambda>(k, x). (p @ [k], x)) kvs)
           = list_all (\<lambda>kv. is_str (snd kv)) kvs"
      by (induction kvs) auto
    then show ?thesis
      using parse_each_isl [of "map (\<lambda>(k, x). (p @ [k], x)) kvs"]
      by (auto simp: z_record_def split: sum.splits)
  qed
  show ?thesis
  proof (cases x)
    case (YObj kvs)
    then show ?thesis
      using obj [of kvs] Some by (auto simp: z_optional_def metadata_wrong_def split: sum.splits)
  qed (simp_all add: Some z_optional_def z_record_def metadata_wrong_def)
qed

lemma isl_case5:
  "isl (case (n, d, l, a, m) of
          (Inr n', Inr d', Inr l', Inr a', Inr m') \<Rightarrow> Inr (g n' d' l' a' m')
        | _ \<Rightarrow> Inl e)
     = (isl n \<or> isl d \<or> isl l \<or> isl a \<or> isl m)"
  by (cases n; cases d; cases l; cases a; cases m) simp_all

text \<open>
  Claim C2, as amended. Validation fails if and only if the header is no key/value
  structure, or the name is missing, no string, empty or fails the pattern, or the
  description is missing, no string or shorter than 20, or \<^verbatim>\<open>allowed-tools\<close> is present
  but not a sequence of strings, or \<^verbatim>\<open>metadata\<close> is present but not a flat map from
  strings to strings, or \<^verbatim>\<open>license\<close> is present but not a string. The claim as stated
  leaves the last condition out: a header that is right in every listed respect and
  carries a number as license is rejected.
\<close>

theorem schema_fails_iff:
  "isl (SkillFrontmatterSchema data) = (spec_schema_error data \<or> license_wrong data)"
proof (cases data)
  case (YObj kvs)
  show ?thesis
    unfolding YObj SkillFrontmatterSchema_def spec_schema_error_def license_wrong_def
    by (simp only: yaml.case Let_def isl_case5 name_check_isl description_check_isl
          license_check_isl tools_check_isl metadata_check_isl) auto
qed (simp_all add: SkillFrontmatterSchema_def spec_schema_error_def license_wrong_def)

theorem schema_fails_iff_witness:
  "\<not> isl (SkillFrontmatterSchema demo_header)
   \<and> \<not> (spec_schema_error demo_header \<or> license_wrong demo_header)
   \<and> isl (SkillFrontmatterSchema (YObj [(''name'', YStr ''Demo''), (''description'', YStr ''short'')]))"
proof -
  have "\<not> (spec_schema_error demo_header \<or> license_wrong demo_header)"
    by (simp add: demo_header_def spec_schema_error_def license_wrong_def name_fails_def
          name_regex_def name_char_def description_short_def tools_wrong_def metadata_wrong_def)
  moreover have "spec_schema_error (YObj [(''name'', YStr ''Demo''), (''description'', YStr ''short'')])"
    by (simp add: spec_schema_error_def name_fails_def name_regex_def name_char_def)
  ultimately show ?thesis
    using schema_fails_iff [of demo_header]
      schema_fails_iff [of "YObj [(''name'', YStr ''Demo''), (''description'', YStr ''short'')]"]
    by blast
qed

theorem schema_license_counterexample:
  "isl (SkillFrontmatterSchema
          (YObj [(''name'', YStr ''demo''),
                 (''description'', YStr ''A demo skill for testing purposes.''),
                 (''license'', YNum 2)]))
   \<and> \<not> spec_schema_error
          (YObj [(''name'', YStr ''demo''),
                 (''description'', YStr ''A demo skill for testing purposes.''),
                 (''license'', YNum 2)])"
  by (simp add: SkillFrontmatterSchema_def z_string_def z_optional_def regex_check_def
        min_check_def invalid_type_def issues_of_def spec_schema_error_def name_fails_def
        name_regex_def name_char_def description_short_def tools_wrong_def metadata_wrong_def)

section \<open>Properties of the bundle parser\<close>

lemma z_string_Inr: "z_string checks p v = Inr s \<Longrightarrow> v = Some (YStr s)"
  by (auto simp: z_string_def Let_def split: option.splits yaml.splits if_splits)

lemma schema_Inr_name:
  assumes "SkillFrontmatterSchema data = Inr fm"
  shows "\<exists>kvs. data = YObj kvs \<and> map_of kvs ''name'' = Some (YStr (fm_name fm))"
proof (cases data)
  case (YObj kvs)
  from assms obtain n where "z_string
           [regex_check name_regex ''Name must be lowercase alphanumeric with hyphens'',
            min_check 1 ''Name cannot be empty'']
           [''name''] (map_of kvs ''name'') = Inr n" and "fm_name fm = n"
    unfolding YObj SkillFrontmatterSchema_def Let_def
    by (auto split: sum.splits)
  then show ?thesis using YObj z_string_Inr by blast
qed (use assms in \<open>simp_all add: SkillFrontmatterSchema_def\<close>)

lemma parseSkill_Some_toolName:
  "snd (parseSkill w skillPath baseDir) = Some s \<Longrightarrow>
   toolName s = generateToolName (w_cwd w) skillPath baseDir"
  by (auto simp: parseSkill_def Let_def split: sum.splits prod.splits if_splits)

lemma resolve_segs_absolute:
  "is_absolute p \<Longrightarrow> resolve_segs cwd p = resolve_segs cwd' p"
  by (simp add: resolve_segs_def)

lemma generateToolName_absolute:
  "is_absolute skillPath \<Longrightarrow> is_absolute baseDir \<Longrightarrow>
   generateToolName cwd skillPath baseDir = generateToolName cwd' skillPath baseDir"
  by (simp add: generateToolName_def relative_def
        resolve_segs_absolute [of skillPath cwd cwd'] resolve_segs_absolute [of baseDir cwd cwd'])

text \<open>
  Claim C3. When the metadata file can be read, its header is well formed and passes
  the schema, and the validated name is the name of the directory that holds the file,
  the parser logs nothing and returns a bundle: its name is the name of the header, its
  body is the trimmed markdown content, and its identifier is
  \<^const>\<open>generateToolName\<close> of the file path and the root. Any other run of the parser
  on the same file path and root that returns a bundle returns the same identifier,
  whatever the file and its header contain (for absolute paths also whatever the
  working directory is).
\<close>

theorem parseSkill_valid:
  assumes "w_readText w skillPath = Inr text"
    and "w_matter w text = Inr (data, markdown)"
    and "SkillFrontmatterSchema data = Inr fm"
    and "fm_name fm = basename (dirname skillPath)"
  shows "\<exists>s kvs. parseSkill w skillPath baseDir = ([], Some s)
           \<and> data = YObj kvs \<and> map_of kvs ''name'' = Some (YStr (name s))
           \<and> content s = trim markdown
           \<and> toolName s = generateToolName (w_cwd w) skillPath baseDir
           \<and> (\<forall>w' s'. (w_cwd w' = w_cwd w \<or> is_absolute skillPath \<and> is_absolute baseDir) \<longrightarrow>
                  snd (parseSkill w' skillPath baseDir) = Some s' \<longrightarrow> toolName s' = toolName s)"
proof -
  let ?s = "\<lparr>name = fm_name fm, fullPath = dirname skillPath,
             toolName = generateToolName (w_cwd w) skillPath baseDir,
             description = fm_description fm, allowedTools = fm_allowed_tools fm,
             metadata = fm_metadata fm, license = fm_license fm,
             content = trim markdown, path = skillPath\<rparr>"
  have ps: "parseSkill w skillPath baseDir = ([], Some ?s)"
    using assms by (simp add: parseSkill_def Let_def)
  obtain kvs where kvs: "data = YObj kvs" "map_of kvs ''name'' = Some (YStr (fm_name fm))"
    using schema_Inr_name [OF assms(3)] by blast
  have indep: "toolName s' = toolName ?s"
    if "w_cwd w' = w_cwd w \<or> is_absolute skillPath \<and> is_absolute baseDir"
      and "snd (parseSkill w' skillPath baseDir) = Some s'" for w' s'
  proof -
    have "toolName s' = generateToolName (w_cwd w') skillPath baseDir"
      using that(2) by (rule parseSkill_Some_toolName)
    also have "\<dots> = generateToolName (w_cwd w) skillPath baseDir"
      using that(1) generateToolName_absolute [of skillPath baseDir "w_cwd w'" "w_cwd w"] by auto
    finally show ?thesis by simp
  qed
  show ?thesis
    using ps kvs indep by (intro exI [of _ ?s] exI [of _ kvs]) simp
qed

theorem parseSkill_valid_witness:
  "w_readText demo_world ''/r/skills/demo/SKILL.md'' = Inr ''(text of the metadata file)''
   \<and> w_matter demo_world ''(text of the metadata file)'' = Inr (demo_header, nl @ ''# Hello'' @ nl)
   \<and> \<not> isl (SkillFrontmatterSchema demo_header)
   \<and> basename (dirname ''/r/skills/demo/SKILL.md'') = ''demo''
   \<and> (\<exists>s. parseSkill demo_world ''/r/skills/demo/SKILL.md'' ''/r/skills'' = ([], Some s)
          \<and> name s = ''demo'' \<and> content s = ''# Hello'' \<and> toolName s = ''skills_demo'')"
proof -
  let ?fm = "\<lparr>fm_name = ''demo'', fm_description = ''A demo skill for testing purposes.'',
              fm_license = None, fm_allowed_tools = None, fm_metadata = None\<rparr>"
  have r: "w_readText demo_world ''/r/skills/demo/SKILL.md'' = Inr ''(text of the metadata file)''"
    and m: "w_matter demo_world ''(text of the metadata file)''
              = Inr (demo_header, nl @ ''# Hello'' @ nl)"
    by (simp_all add: demo_world_def)
  have v: "SkillFrontmatterSchema demo_header = Inr ?fm"
    by (simp add: demo_header_def SkillFrontmatterSchema_def z_string_def z_optional_def
          regex_check_def min_check_def name_regex_def name_char_def)
  have d: "basename (dirname ''/r/skills/demo/SKILL.md'') = ''demo''"
    by (simp add: basename_def dirname_def sep_def)
  then have d': "fm_name ?fm = basename (dirname ''/r/skills/demo/SKILL.md'')" by simp
  have t: "trim (nl @ ''# Hello'' @ nl) = ''# Hello''"
    by (simp add: trim_def nl_def is_space_def)
  have g: "generateToolName (w_cwd demo_world) ''/r/skills/demo/SKILL.md'' ''/r/skills''
             = ''skills_demo''"
    by (simp add: generateToolName_def relative_def resolve_segs_def is_absolute_def sep_def
          norm_step_def dirname_def replace_hyphens_def)
  from parseSkill_valid [OF r m v d', of "''/r/skills''"]
  obtain s kvs where "parseSkill demo_world ''/r/skills/demo/SKILL.md'' ''/r/skills'' = ([], Some s)"
    "demo_header = YObj kvs" "map_of kvs ''name'' = Some (YStr (name s))"
    "content s = trim (nl @ ''# Hello'' @ nl)"
    "toolName s = generateToolName (w_cwd demo_world) ''/r/skills/demo/SKILL.md'' ''/r/skills''"
    by blast
  then have "parseSkill demo_world ''/r/skills/demo/SKILL.md'' ''/r/skills'' = ([], Some s)
      \<and> name s = ''demo'' \<and> content s = ''# Hello'' \<and> toolName s = ''skills_demo''"
    using t g by (auto simp: demo_header_def)
  then show ?thesis using r m v d by auto
qed

text \<open>
  Claim C9. When the header passes the schema but the validated name differs from the
  name of the directory that holds the metadata file, the parser returns no bundle and
  logs one error whose arguments quote the declared name and the directory name. The
  example of the claim, name \<^verbatim>\<open>foo\<close> in a directory \<^verbatim>\<open>bar\<close>, is the witness.
\<close>

theorem parseSkill_name_mismatch:
  assumes "w_readText w skillPath = Inr text"
    and "w_matter w text = Inr (data, markdown)"
    and "SkillFrontmatterSchema data = Inr fm"
    and "fm_name fm \<noteq> basename (dirname skillPath)"
  shows "\<exists>args. parseSkill w skillPath baseDir = ([ConsoleError args], None)
           \<and> Str (nl @ ''   Frontmatter name: '' @ dquote @ fm_name fm @ dquote) \<in> set args
           \<and> Str (nl @ ''   Directory name: '' @ dquote @ basename (dirname skillPath) @ dquote)
               \<in> set args"
  using assms by (simp add: parseSkill_def Let_def)

theorem parseSkill_name_mismatch_witness:
  "w_readText mismatch_world ''/r/skills/bar/SKILL.md'' = Inr ''(text of the metadata file)''
   \<and> w_matter mismatch_world ''(text of the metadata file)'' = Inr (foo_header, ''body'')
   \<and> \<not> isl (SkillFrontmatterSchema foo_header)
   \<and> basename (dirname ''/r/skills/bar/SKILL.md'') = ''bar''
   \<and> (\<exists>args. parseSkill mismatch_world ''/r/skills/bar/SKILL.md'' ''/r/skills''
                 = ([ConsoleError args], None)
          \<and> Str (nl @ ''   Frontmatter name: '' @ dquote @ ''foo'' @ dquote) \<in> set args
          \<and> Str (nl @ ''   Directory name: '' @ dquote @ ''bar'' @ dquote) \<in> set args)"
proof -
  let ?fm = "\<lparr>fm_name = ''foo'', fm_description = ''A skill whose name is not its directory.'',
              fm_license = None, fm_allowed_tools = None, fm_metadata = None\<rparr>"
  have r: "w_readText mismatch_world ''/r/skills/bar/SKILL.md''
             = Inr ''(text of the metadata file)''"
    and m: "w_matter mismatch_world ''(text of the metadata file)'' = Inr (foo_header, ''body'')"
    by (simp_all add: mismatch_world_def)
  have v: "SkillFrontmatterSchema foo_header = Inr ?fm"
    by (simp add: foo_header_def SkillFrontmatterSchema_def z_string_def z_optional_def
          regex_check_def min_check_def name_regex_def name_char_def)
  have d: "basename (dirname ''/r/skills/bar/SKILL.md'') = ''bar''"
    by (simp add: basename_def dirname_def sep_def)
  then have d': "fm_name ?fm \<noteq> basename (dirname ''/r/skills/bar/SKILL.md'')" by simp
  from parseSkill_name_mismatch [OF r m v d', of "''/r/skills''"]
  show ?thesis using r m v d by simp
qed

section \<open>Properties of the discovery walk\<close>

lemma parse_matches_acc:
  "parse_matches w basePath ms (log, skills) =
     (log @ concat (map (\<lambda>m. fst (parseSkill w m basePath)) ms),
      skills @ List.map_filter (\<lambda>m. snd (parseSkill w m basePath)) ms)"
proof (induction ms arbitrary: log skills)
  case Nil
  show ?case by (simp add: List.map_filter_simps)
next
  case (Cons m ms)
  show ?case
    by (cases "parseSkill w m basePath")
       (simp add: Cons List.map_filter_simps split: option.splits)
qed

lemma scan_roots_acc:
  "scan_roots w basePaths (log, skills) =
     (log @ concat (map (\<lambda>basePath. concat (map (\<lambda>m. fst (parseSkill w m basePath))
                      (yielded (w_scan w ''**/SKILL.md'' basePath)))) basePaths),
      skills @ concat (map (\<lambda>basePath. List.map_filter (\<lambda>m. snd (parseSkill w m basePath))
                      (yielded (w_scan w ''**/SKILL.md'' basePath))) basePaths))"
  by (induction basePaths arbitrary: log skills) (simp_all add: parse_matches_acc)

lemma snd_discoverSkills:
  "snd (discoverSkills w basePaths) = snd (scan_roots w basePaths ([], []))"
  by (simp add: discoverSkills_def Let_def split: prod.splits)

lemma detect_duplicates_count:
  "count_list (detect_duplicates skills seen dups) t
     = count_list dups t
       + (if t \<in> seen then count_list (map toolName skills) t
          else count_list (map toolName skills) t - 1)"
  by (induction skills arbitrary: seen dups) auto

lemma parseSkill_no_warn: "filter is_warn (fst (parseSkill w m basePath)) = []"
  by (auto simp: parseSkill_def Let_def filter_empty_conv split: sum.splits prod.splits)

lemma scan_log_no_warn: "filter is_warn (fst (scan_roots w basePaths ([], []))) = []"
proof -
  have "filter is_warn (concat (map (\<lambda>m. fst (parseSkill w m b)) ms)) = []" for b ms
    by (induction ms) (simp_all add: parseSkill_no_warn)
  then have "filter is_warn (concat (map (\<lambda>b. concat (map (\<lambda>m. fst (parseSkill w m b))
                      (yielded (w_scan w ''**/SKILL.md'' b)))) bs)) = []" for bs
    by (induction bs) simp_all
  then show ?thesis by (simp add: scan_roots_acc)
qed

text \<open>
  Claim C4. For every sequence of roots, discovery returns exactly the bundles the
  parser returns for the metadata files matched under the roots, in the order of the
  roots and, within a root, in the order of the matches. The detection of duplicate
  identifiers leaves the sequence as the walk collected it, so bundles that share an
  identifier all stay.
\<close>

theorem discoverSkills_collects:
  "snd (discoverSkills w basePaths)
     = concat (map (\<lambda>basePath. List.map_filter (\<lambda>m. snd (parseSkill w m basePath))
                 (yielded (w_scan w ''**/SKILL.md'' basePath))) basePaths)
   \<and> snd (discoverSkills w basePaths) = snd (scan_roots w basePaths ([], []))"
  by (simp add: snd_discoverSkills scan_roots_acc)

theorem discoverSkills_collects_witness:
  "map path (snd (discoverSkills demo_world [''/p/skills'', ''/h/skills'']))
     = [''/p/skills/demo/SKILL.md'', ''/h/skills/demo/SKILL.md'']
   \<and> map toolName (snd (discoverSkills demo_world [''/p/skills'', ''/h/skills'']))
     = [''skills_demo'', ''skills_demo'']"
proof -
  have "snd (discoverSkills demo_world [''/p/skills'', ''/h/skills''])
     = concat (map (\<lambda>basePath. List.map_filter (\<lambda>m. snd (parseSkill demo_world m basePath))
                 (yielded (w_scan demo_world ''**/SKILL.md'' basePath))) [''/p/skills'', ''/h/skills''])"
    using discoverSkills_collects [of demo_world "[''/p/skills'', ''/h/skills'']"] by blast
  then show ?thesis by code_simp
qed

text \<open>
  Claim C7, as amended. After aggregation at most one warning is logged, and it is
  logged exactly when some identifier occurs more than once among the collected
  bundles. It lists exactly the identifiers that occur more than once, each of them once
  for every occurrence after its first: an identifier that occurs \<open>k\<close> times is listed
  \<open>k - 1\<close> times. The claim as stated, that each such identifier is listed exactly once,
  fails when an identifier occurs three times.
\<close>

theorem duplicate_diagnostic:
  "\<exists>dups. filter is_warn (fst (discoverSkills w basePaths))
             = (if dups = [] then []
                else [ConsoleWarn [Str ''!  Duplicate tool names detected:'', StrArr dups]])
         \<and> (\<forall>t. count_list dups t
                  = count_list (map toolName (snd (discoverSkills w basePaths))) t - 1)
         \<and> set dups = {t. 1 < count_list (map toolName (snd (discoverSkills w basePaths))) t}"
proof -
  obtain log skills where sr: "scan_roots w basePaths ([], []) = (log, skills)"
    by (cases "scan_roots w basePaths ([], [])")
  let ?dups = "detect_duplicates skills {} []"
  have nw: "filter is_warn log = []" using scan_log_no_warn [of w basePaths] sr by simp
  have ds: "discoverSkills w basePaths =
      (if ?dups \<noteq> [] then
         log @ [ConsoleWarn [Str ''!  Duplicate tool names detected:'', StrArr ?dups]]
       else log, skills)"
    by (simp add: discoverSkills_def sr Let_def)
  have cnt: "count_list ?dups t = count_list (map toolName skills) t - 1" for t
    by (simp add: detect_duplicates_count)
  have "t \<in> set ?dups \<longleftrightarrow> 1 < count_list (map toolName skills) t" for t
    using cnt [of t] count_list_0_iff [of ?dups t] by auto
  then have st: "set ?dups = {t. 1 < count_list (map toolName skills) t}" by blast
  show ?thesis
    by (rule exI [of _ ?dups]) (simp add: ds nw cnt st)
qed

theorem duplicate_diagnostic_witness:
  "\<exists>dups. filter is_warn (fst (discoverSkills demo_world [''/p/skills'', ''/h/skills'']))
             = (if dups = [] then []
                else [ConsoleWarn [Str ''!  Duplicate tool names detected:'', StrArr dups]])
         \<and> (\<forall>t. count_list dups t
                  = count_list (map toolName
                      (snd (discoverSkills demo_world [''/p/skills'', ''/h/skills'']))) t - 1)
         \<and> set dups = {t. 1 < count_list (map toolName
                      (snd (discoverSkills demo_world [''/p/skills'', ''/h/skills'']))) t}"
  by (rule duplicate_diagnostic)

theorem duplicate_diagnostic_counterexample:
  "map toolName (snd (discoverSkills demo_world
       [''/p/.opencode/skills'', ''/home/u/.opencode/skills'', ''/home/u/.config/opencode/skills'']))
     = [''skills_demo'', ''skills_demo'', ''skills_demo'']
   \<and> filter is_warn (fst (discoverSkills demo_world
       [''/p/.opencode/skills'', ''/home/u/.opencode/skills'', ''/home/u/.config/opencode/skills'']))
     = [ConsoleWarn [Str ''!  Duplicate tool names detected:'',
                     StrArr [''skills_demo'', ''skills_demo'']]]
   \<and> \<not> distinct [''skills_demo'', ''skills_demo'']"
  by code_simp

section \<open>Properties of the invocation\<close>

lemma resource_paths_acc:
  "resource_paths ms acc = acc @ filter (\<lambda>m. basename m \<noteq> ''SKILL.md'') ms"
  by (induction ms arbitrary: acc) simp_all

lemma basename_snoc:
  assumes "f \<noteq> []" "sep \<notin> set f"
  shows "basename (d @ sep # f) = f"
proof -
  have "last f \<in> set f" using assms(1) by simp
  then have "last f \<noteq> sep" using assms(2) by metis
  then have "hd (rev f) \<noteq> sep" "rev f \<noteq> []" using assms(1) by (simp_all add: hd_rev)
  then have "dropWhile (\<lambda>c. c = sep) (rev f @ sep # rev d) = rev f @ sep # rev d"
    by (cases "rev f") auto
  moreover have "takeWhile (\<lambda>c. c \<noteq> sep) (rev f @ sep # rev d) = rev f"
    using assms(2) by (auto simp: takeWhile_append2 takeWhile_tail)
  ultimately show ?thesis by (simp add: basename_def)
qed

lemma parse_glob_all: "parse_glob ''**/*'' = [GlobStar, Star]"
  by (simp add: parse_glob_def glob_seg_of_def sep_def)

lemma glob_match_all:
  "glob_match [GlobStar, Star] rel = (rel \<noteq> [] \<and> list_all (\<lambda>s. \<not> hidden s) rel)"
proof (induction rel)
  case Nil
  show ?case by simp
next
  case (Cons s ss)
  show ?case
  proof (cases ss)
    case Nil
    then show ?thesis by simp
  next
    case (Cons t ts)
    then show ?thesis using Cons.IH by auto
  qed
qed

lemma abs_path_inj:
  assumes "list_all proper_seg f" "list_all proper_seg g" "abs_path f = abs_path g"
  shows "f = g"
proof -
  have "list_all (\<lambda>x. x \<noteq> [] \<and> sep \<notin> set x) f" "list_all (\<lambda>x. x \<noteq> [] \<and> sep \<notin> set x) g"
    using assms(1,2) by (simp_all add: list_all_iff proper_seg_def)
  moreover have "str_join [sep] f = str_join [sep] g" using assms(3) by (simp add: abs_path_def)
  ultimately show ?thesis by (rule str_join_inj)
qed

lemma basename_abs_path:
  assumes "list_all proper_seg f" "f \<noteq> []"
  shows "basename (abs_path f) = last f"
proof -
  obtain xs l where f: "f = xs @ [l]" using assms(2) by (metis rev_exhaust)
  have l: "l \<noteq> []" "sep \<notin> set l" using assms(1) f by (simp_all add: proper_seg_def)
  have "abs_path f = (if xs = [] then [] else sep # str_join [sep] xs) @ sep # l"
    by (simp add: abs_path_def f str_join_snoc)
  then show ?thesis using l by (simp add: basename_snoc f)
qed

lemma glob_scan_all_mem:
  assumes wf: "list_all (list_all proper_seg) files"
    and f: "f \<in> set files" "f = resolve_segs cwd dir @ rel"
  shows "(abs_path f \<in> set (glob_scan cwd files ''**/*'' dir))
           = (rel \<noteq> [] \<and> list_all (\<lambda>s. \<not> hidden s) rel)"
proof -
  let ?d = "resolve_segs cwd dir"
  let ?P = "\<lambda>g. take (length ?d) g = ?d \<and> glob_match [GlobStar, Star] (drop (length ?d) g)"
  have pf: "list_all proper_seg f" using wf f(1) by (simp add: list_all_iff)
  have "set (glob_scan cwd files ''**/*'' dir) = abs_path ` {g \<in> set files. ?P g}"
    by (simp add: glob_scan_def parse_glob_all Let_def)
  then have "(abs_path f \<in> set (glob_scan cwd files ''**/*'' dir))
          = (\<exists>g \<in> set files. ?P g \<and> abs_path f = abs_path g)"
    by blast
  also have "\<dots> = ?P f"
  proof
    assume "\<exists>g \<in> set files. ?P g \<and> abs_path f = abs_path g"
    then obtain g where g: "g \<in> set files" "?P g" "abs_path f = abs_path g" by blast
    have "list_all proper_seg g" using wf g(1) by (simp add: list_all_iff)
    with pf have "f = g" using g(3) by (rule abs_path_inj)
    then show "?P f" using g(2) by simp
  next
    assume "?P f"
    then show "\<exists>g \<in> set files. ?P g \<and> abs_path f = abs_path g" using f(1) by blast
  qed
  also have "\<dots> = (rel \<noteq> [] \<and> list_all (\<lambda>s. \<not> hidden s) rel)"
    by (simp add: f(2) glob_match_all)
  finally show ?thesis .
qed

text \<open>
  Claim C6, as amended. Take a file of the file system that lies below the bundle
  directory, at any depth, with \<open>rel\<close> the segments of its path below the directory. Its
  file name is the last of them, and its absolute path is among the enumerated resources
  if and only if the file name is not \<^verbatim>\<open>SKILL.md\<close> and no segment of \<open>rel\<close> begins with a
  period. No path that ends in the metadata file name is among the resources, however
  long the directory before it is, and \<^const>\<open>execute\<close> renders exactly the enumerated
  paths. The claim as stated, which includes every file but those named like the
  metadata file, fails for a hidden file such as \<^verbatim>\<open>.env\<close>: the scan of \<^verbatim>\<open>**/*\<close> does not
  yield it.
\<close>

theorem resource_enumeration:
  assumes "list_all (list_all proper_seg) files"
    and "f \<in> set files" and "f = resolve_segs cwd dir @ rel" and "rel \<noteq> []"
  shows "basename (abs_path f) = last rel
       \<and> (abs_path f \<in> set (resource_paths (glob_scan cwd files ''**/*'' dir) []))
           = (last rel \<noteq> ''SKILL.md'' \<and> list_all (\<lambda>s. \<not> hidden s) rel)
       \<and> d @ ''/SKILL.md'' \<notin> set (resource_paths (glob_scan cwd files ''**/*'' dir) [])
       \<and> (w_scan w ''**/*'' (fullPath skill)
              = ScanDone (glob_scan (w_cwd w) files ''**/*'' (fullPath skill)) \<longrightarrow>
            execute w skill
              = Some (render_prompt skill
                        (resource_paths
                           (glob_scan (w_cwd w) files ''**/*'' (fullPath skill)) [])))"
proof -
  let ?ms = "glob_scan cwd files ''**/*'' dir"
  have pf: "list_all proper_seg f" using assms(1,2) by (simp add: list_all_iff)
  have fne: "f \<noteq> []" using assms(3,4) by simp
  have bn: "basename (abs_path f) = last rel"
    using basename_abs_path [OF pf fne] assms(3,4) by simp
  have rp: "resource_paths ?ms [] = filter (\<lambda>m. basename m \<noteq> ''SKILL.md'') ?ms"
    by (simp add: resource_paths_acc)
  have mem: "(abs_path f \<in> set (resource_paths ?ms []))
           = (last rel \<noteq> ''SKILL.md'' \<and> list_all (\<lambda>s. \<not> hidden s) rel)"
    using glob_scan_all_mem [OF assms(1,2,3)] assms(4) by (auto simp: rp bn)
  have "basename (d @ sep # ''SKILL.md'') = ''SKILL.md''"
    by (rule basename_snoc) (simp_all add: sep_def)
  then have ex: "d @ ''/SKILL.md'' \<notin> set (resource_paths ?ms [])"
    by (simp add: rp sep_def)
  have e: "execute w skill
            = Some (render_prompt skill
                      (resource_paths (glob_scan (w_cwd w) files ''**/*'' (fullPath skill)) []))"
    if "w_scan w ''**/*'' (fullPath skill)
          = ScanDone (glob_scan (w_cwd w) files ''**/*'' (fullPath skill))"
    using that by (simp add: execute_def)
  show ?thesis using bn mem ex e by blast
qed

theorem resource_enumeration_witness:
  "list_all (list_all proper_seg) demo_files
   \<and> [''r'', ''skills'', ''demo'', ''scripts'', ''helper.py''] \<in> set demo_files
   \<and> [''r'', ''skills'', ''demo'', ''scripts'', ''helper.py'']
        = resolve_segs ''/w'' ''/r/skills/demo'' @ [''scripts'', ''helper.py'']
   \<and> ''/r/skills/demo/scripts/helper.py''
        \<in> set (resource_paths (glob_scan ''/w'' demo_files ''**/*'' ''/r/skills/demo'') [])
   \<and> ''/r/skills/demo/a/b/SKILL.md''
        \<notin> set (resource_paths (glob_scan ''/w'' demo_files ''**/*'' ''/r/skills/demo'') [])"
proof -
  let ?f = "[''r'', ''skills'', ''demo'', ''scripts'', ''helper.py'']"
  have wf: "list_all (list_all proper_seg) demo_files"
    by (simp add: demo_files_def proper_seg_def sep_def)
  have m: "?f \<in> set demo_files" by (simp add: demo_files_def)
  have r: "?f = resolve_segs ''/w'' ''/r/skills/demo'' @ [''scripts'', ''helper.py'']"
    by (simp add: resolve_segs_def is_absolute_def sep_def norm_step_def)
  have ne: "[''scripts'', ''helper.py''] \<noteq> []" by simp
  note t = resource_enumeration [OF wf m r ne, of "''/r/skills/demo/a/b''"]
  have "(abs_path ?f \<in> set (resource_paths (glob_scan ''/w'' demo_files ''**/*'' ''/r/skills/demo'') []))
          = (last [''scripts'', ''helper.py''] \<noteq> ''SKILL.md''
             \<and> list_all (\<lambda>s. \<not> hidden s) [''scripts'', ''helper.py''])"
    using t by blast
  then have 1: "''/r/skills/demo/scripts/helper.py''
        \<in> set (resource_paths (glob_scan ''/w'' demo_files ''**/*'' ''/r/skills/demo'') [])"
    by (simp add: abs_path_def sep_def hidden_def)
  have "''/r/skills/demo/a/b'' @ ''/SKILL.md''
        \<notin> set (resource_paths (glob_scan ''/w'' demo_files ''**/*'' ''/r/skills/demo'') [])"
    using t by blast
  then have 2: "''/r/skills/demo/a/b/SKILL.md''
        \<notin> set (resource_paths (glob_scan ''/w'' demo_files ''**/*'' ''/r/skills/demo'') [])"
    by simp
  show ?thesis using wf m r 1 2 by blast
qed

theorem resource_enumeration_counterexample:
  "[''r'', ''skills'', ''demo'', ''.env''] \<in> set demo_files
   \<and> [''r'', ''skills'', ''demo'', ''.env''] = resolve_segs ''/w'' ''/r/skills/demo'' @ [''.env'']
   \<and> abs_path [''r'', ''skills'', ''demo'', ''.env''] = ''/r/skills/demo/.env''
   \<and> basename ''/r/skills/demo/.env'' \<noteq> ''SKILL.md''
   \<and> ''/r/skills/demo/.env''
        \<notin> set (resource_paths (glob_scan ''/w'' demo_files ''**/*'' ''/r/skills/demo'') [])
   \<and> resource_paths (glob_scan ''/w'' demo_files ''**/*'' ''/r/skills/demo'') []
        = [''/r/skills/demo/notes.txt'', ''/r/skills/demo/scripts/helper.py'']"
  by code_simp

text \<open>
  Facts about \<^const>\<open>replaceAll\<close>. When the inserted text has no dollar sign, an
  occurrence of the pattern is replaced by the text as it is; a string in which the
  pattern does not occur is left as it is.
\<close>

lemma getSubstitution_plain:
  "CHR ''$'' \<notin> set repl \<Longrightarrow> getSubstitution matched str pos repl = repl"
  by (induction matched str pos repl rule: getSubstitution.induct) auto

lemma replaceAll_from_suffix:
  assumes "CHR ''$'' \<notin> set repl" "search \<noteq> []"
  shows "replaceAll_from str search repl pos = replaceAll_from (drop pos str) search repl 0"
  using assms
proof (induction "length str - pos" arbitrary: str pos rule: less_induct)
  case less
  let ?s = "drop pos str"
  have len: "0 < length search" using less.prems(2) by simp
  show ?case
  proof (cases "pos + length search \<le> length str \<and> take (length search) ?s = search")
    case True
    then have hit': "0 + length search \<le> length ?s \<and> take (length search) (drop 0 ?s) = search"
      by auto
    have "replaceAll_from str search repl pos
            = repl @ replaceAll_from str search repl (pos + length search)"
      using True less.prems
      by (subst replaceAll_from.simps) (simp add: getSubstitution_plain)
    also have "replaceAll_from str search repl (pos + length search)
            = replaceAll_from (drop (pos + length search) str) search repl 0"
    proof -
      have "length str - (pos + length search) < length str - pos"
        using True len by linarith
      then show ?thesis by (rule less.hyps [OF _ less.prems])
    qed
    also have "drop (pos + length search) str = drop (length search) ?s"
      by (simp add: add.commute)
    also have "replaceAll_from (drop (length search) ?s) search repl 0
            = replaceAll_from ?s search repl (length search)"
    proof -
      have "length ?s - length search < length str - pos"
        using True len unfolding length_drop by linarith
      then show ?thesis by (rule less.hyps [OF _ less.prems, symmetric])
    qed
    also have "repl @ replaceAll_from ?s search repl (length search)
            = replaceAll_from ?s search repl 0"
      using hit' less.prems
      by (subst (2) replaceAll_from.simps) (simp add: getSubstitution_plain)
    finally show ?thesis .
  next
    case False
    then have miss': "\<not> (0 + length search \<le> length ?s \<and> take (length search) (drop 0 ?s) = search)"
      using less.prems(2) by auto
    show ?thesis
    proof (cases "pos < length str")
      case True
      have "replaceAll_from str search repl pos
              = str ! pos # replaceAll_from str search repl (Suc pos)"
        using False True by (subst replaceAll_from.simps) auto
      also have "replaceAll_from str search repl (Suc pos)
              = replaceAll_from (drop (Suc pos) str) search repl 0"
      proof -
        have "length str - Suc pos < length str - pos"
          using True by linarith
        then show ?thesis by (rule less.hyps [OF _ less.prems])
      qed
      also have "drop (Suc pos) str = drop (Suc 0) ?s" by simp
      also have "replaceAll_from (drop (Suc 0) ?s) search repl 0
              = replaceAll_from ?s search repl (Suc 0)"
      proof -
        have "length ?s - Suc 0 < length str - pos"
          using True unfolding length_drop by linarith
        then show ?thesis by (rule less.hyps [OF _ less.prems, symmetric])
      qed
      also have "str ! pos # replaceAll_from ?s search repl (Suc 0)
              = replaceAll_from ?s search repl 0"
        using miss' True
        by (subst (2) replaceAll_from.simps) (auto simp: hd_drop_conv_nth hd_conv_nth)
      finally show ?thesis .
    next
      case False
      then have "?s = []" by simp
      then show ?thesis
        using False len
        by (subst replaceAll_from.simps, subst (2) replaceAll_from.simps) auto
    qed
  qed
qed

lemma replaceAll_Nil: "search \<noteq> [] \<Longrightarrow> replaceAll [] search repl = []"
  unfolding replaceAll_def by (subst replaceAll_from.simps) simp

lemma replaceAll_miss:
  assumes "take (length search) (x # xs) \<noteq> search" "search \<noteq> []" "CHR ''$'' \<notin> set repl"
  shows "replaceAll (x # xs) search repl = x # replaceAll xs search repl"
proof -
  have "replaceAll_from (x # xs) search repl 0 = x # replaceAll_from (x # xs) search repl (Suc 0)"
    using assms(1) by (subst replaceAll_from.simps) auto
  also have "replaceAll_from (x # xs) search repl (Suc 0) = replaceAll_from xs search repl 0"
    using replaceAll_from_suffix [OF assms(3,2), of "x # xs" "Suc 0"] by simp
  finally show ?thesis by (simp add: replaceAll_def)
qed

lemma replaceAll_hit:
  assumes "search \<noteq> []" "CHR ''$'' \<notin> set repl"
  shows "replaceAll (search @ rest) search repl = repl @ replaceAll rest search repl"
proof -
  have "replaceAll_from (search @ rest) search repl 0
          = repl @ replaceAll_from (search @ rest) search repl (length search)"
    using assms by (subst replaceAll_from.simps) (simp add: getSubstitution_plain)
  also have "replaceAll_from (search @ rest) search repl (length search)
          = replaceAll_from rest search repl 0"
    using replaceAll_from_suffix [OF assms(2,1), of "search @ rest" "length search"] by simp
  finally show ?thesis by (simp add: replaceAll_def)
qed

lemma replaceAll_skip:
  assumes "c \<notin> set xs" "CHR ''$'' \<notin> set repl"
  shows "replaceAll (xs @ rest) (c # s) repl = xs @ replaceAll rest (c # s) repl"
  using assms(1)
proof (induction xs)
  case Nil
  show ?case by simp
next
  case (Cons x xs)
  then have "take (length (c # s)) (x # xs @ rest) \<noteq> c # s" by auto
  then show ?case using Cons assms(2) by (simp add: replaceAll_miss)
qed

lemma replaceAll_from_no_occurrence:
  assumes "\<forall>i. take (length search) (drop i str) \<noteq> search"
  shows "replaceAll_from str search repl pos = drop pos str"
proof (induction "length str - pos" arbitrary: pos rule: less_induct)
  case less
  have miss: "take (length search) (drop pos str) \<noteq> search"
    using assms by blast
  show ?case
  proof (cases "pos < length str")
    case True
    then have "length str - Suc pos < length str - pos" by linarith
    then have "replaceAll_from str search repl (Suc pos) = drop (Suc pos) str"
      by (rule less.hyps)
    then show ?thesis
      using miss True
      by (subst replaceAll_from.simps) (simp add: Cons_nth_drop_Suc)
  next
    case False
    then show ?thesis
      using miss by (subst replaceAll_from.simps) simp
  qed
qed

lemma take_drop_Cons_nth:
  assumes "take (Suc n) (drop i str) = c # s"
  shows "i < length str \<and> str ! i = c"
proof -
  have "drop i str \<noteq> []" using assms by auto
  then have i: "i < length str" by (metis drop_all leI)
  then have "drop i str = str ! i # drop (Suc i) str" by (simp add: Cons_nth_drop_Suc)
  then show ?thesis using assms i by simp
qed

lemma replaceAll_inert:
  assumes "c \<notin> set pre" "c \<notin> set post" "take (length (c # s)) (c # post) \<noteq> c # s"
  shows "replaceAll (pre @ c # post) (c # s) repl = pre @ c # post"
proof -
  define str where "str = pre @ c # post"
  have len: "length str = Suc (length pre + length post)" by (simp add: str_def)
  have "take (length (c # s)) (drop i str) \<noteq> c # s" for i
  proof
    assume eq: "take (length (c # s)) (drop i str) = c # s"
    then have eq': "take (Suc (length s)) (drop i str) = c # s" by simp
    have i: "i < length str" and at: "str ! i = c"
      using take_drop_Cons_nth [OF eq'] by simp_all
    have "i = length pre"
    proof (rule ccontr)
      assume ne: "i \<noteq> length pre"
      show False
      proof (cases "i < length pre")
        case True
        then have "str ! i = pre ! i" by (simp add: str_def nth_append)
        moreover have "pre ! i \<in> set pre" using True by (rule nth_mem)
        ultimately show False using assms(1) at by simp
      next
        case False
        then have gt: "length pre < i" using ne by linarith
        then have k: "i - length pre - 1 < length post" using i len by linarith
        have "str ! i = (c # post) ! (i - length pre)"
          using False by (simp add: str_def nth_append)
        also have "\<dots> = post ! (i - length pre - 1)"
          using gt by (simp add: nth_Cons_pos)
        finally have "str ! i = post ! (i - length pre - 1)" .
        moreover have "post ! (i - length pre - 1) \<in> set post" using k by (rule nth_mem)
        ultimately show False using assms(2) at by simp
      qed
    qed
    then have "drop i str = c # post" by (simp add: str_def)
    then show False using eq assms(3) by simp
  qed
  then have "\<forall>i. take (length (c # s)) (drop i str) \<noteq> c # s" by blast
  then have "replaceAll_from str (c # s) repl 0 = drop 0 str"
    by (rule replaceAll_from_no_occurrence)
  then show ?thesis by (simp add: replaceAll_def str_def)
qed

lemma replaceAll_free:
  assumes "c \<notin> set xs"
  shows "replaceAll xs (c # s) repl = xs"
proof -
  have "take (length (c # s)) (drop i xs) \<noteq> c # s" for i
  proof
    assume eq: "take (length (c # s)) (drop i xs) = c # s"
    then have "c \<in> set (take (length (c # s)) (drop i xs))" by simp
    then have "c \<in> set xs" by (meson in_set_takeD in_set_dropD)
    then show False using assms by simp
  qed
  then have "replaceAll_from xs (c # s) repl 0 = drop 0 xs"
    by (intro replaceAll_from_no_occurrence) blast
  then show ?thesis by (simp add: replaceAll_def)
qed

lemma replaceAll_once:
  assumes "c \<notin> set pre" "replaceAll post (c # s) repl = post" "CHR ''$'' \<notin> set repl"
  shows "replaceAll (pre @ (c # s) @ post) (c # s) repl = pre @ repl @ post"
proof -
  have "replaceAll (pre @ (c # s) @ post) (c # s) repl
          = pre @ replaceAll ((c # s) @ post) (c # s) repl"
    using assms(1,3) by (rule replaceAll_skip)
  also have "replaceAll ((c # s) @ post) (c # s) repl = repl @ replaceAll post (c # s) repl"
    using assms(3) by (intro replaceAll_hit) simp_all
  finally show ?thesis by (simp add: assms(2))
qed

lemma str_join_dollar_free:
  "CHR ''$'' \<notin> set s \<Longrightarrow> list_all (\<lambda>p. CHR ''$'' \<notin> set p) xs \<Longrightarrow>
   CHR ''$'' \<notin> set (str_join s xs)"
  by (induction s xs rule: str_join.induct) auto

text \<open>
  When neither the name, nor the body, nor a resource path contains a dollar sign (and
  the name no percent sign, as every validated name), the payload is the first template
  with the name and the body in place, followed, if and only if there are resources, by
  the second template with the name and the paths, one per line, in the order and
  multiplicity of the list.
\<close>

lemma render_prompt_plain:
  assumes n1: "CHR ''$'' \<notin> set (name skill)" and n2: "CHR ''%'' \<notin> set (name skill)"
    and b: "CHR ''$'' \<notin> set (content skill)"
    and ps: "list_all (\<lambda>p. CHR ''$'' \<notin> set p) resourcePaths"
  shows "render_prompt skill resourcePaths
     = ''<skill name='' @ dquote @ name skill @ dquote @ ''>'' @ nl @ nl
       @ content skill @ nl @ nl @ ''</skill>''
       @ (if resourcePaths = [] then []
          else nl @ nl @ ''<skill_resources>'' @ nl
               @ ''IMPORTANT: The skill '' @ name skill
               @ '' may reference certain resource files. Use their full paths:''
               @ nl @ nl @ str_join nl resourcePaths @ nl @ ''</skill_resources>'')"
proof -
  let ?n = "name skill"
  let ?pre = "''<skill name='' @ dquote"
  let ?mid = "dquote @ ''>'' @ nl @ nl"
  let ?post = "nl @ nl @ ''</skill>''"
  have i1: "replaceAll (?mid @ ''%{content}'' @ ?post) ''%{name}'' ?n
              = ?mid @ ''%{content}'' @ ?post"
  proof -
    have "replaceAll (?mid @ CHR ''%'' # (''{content}'' @ ?post)) ''%{name}'' ?n
            = ?mid @ CHR ''%'' # (''{content}'' @ ?post)"
      by (rule replaceAll_inert) (simp_all add: dquote_def nl_def)
    then show ?thesis by simp
  qed
  have "replaceAll (?pre @ ''%{name}'' @ (?mid @ ''%{content}'' @ ?post)) ''%{name}'' ?n
            = ?pre @ ?n @ (?mid @ ''%{content}'' @ ?post)"
  proof (rule replaceAll_once)
    show "CHR ''%'' \<notin> set ?pre" by (simp add: dquote_def)
    show "replaceAll (?mid @ ''%{content}'' @ ?post) ''%{name}'' ?n
            = ?mid @ ''%{content}'' @ ?post" by (rule i1)
    show "CHR ''$'' \<notin> set ?n" by (rule n1)
  qed
  then have s1: "replaceAll SKILL_PROMPT ''%{name}'' ?n
                   = ?pre @ ?n @ ?mid @ ''%{content}'' @ ?post"
    by (simp add: SKILL_PROMPT_def)
  have "replaceAll ((?pre @ ?n @ ?mid) @ CHR ''%'' # (''{content}'' @ ?post))
             ''%{fullPath}'' (fullPath skill)
            = (?pre @ ?n @ ?mid) @ CHR ''%'' # (''{content}'' @ ?post)"
    using n2 by (intro replaceAll_inert) (simp_all add: dquote_def nl_def)
  then have s2: "replaceAll (?pre @ ?n @ ?mid @ ''%{content}'' @ ?post)
                   ''%{fullPath}'' (fullPath skill)
                   = ?pre @ ?n @ ?mid @ ''%{content}'' @ ?post"
    by simp
  have i3: "replaceAll ?post ''%{content}'' (content skill) = ?post"
    by (rule replaceAll_free) (simp add: nl_def)
  have "replaceAll ((?pre @ ?n @ ?mid) @ ''%{content}'' @ ?post) ''%{content}'' (content skill)
            = (?pre @ ?n @ ?mid) @ content skill @ ?post"
  proof (rule replaceAll_once)
    show "CHR ''%'' \<notin> set (?pre @ ?n @ ?mid)" using n2 by (simp add: dquote_def nl_def)
    show "replaceAll ?post ''%{content}'' (content skill) = ?post" by (rule i3)
    show "CHR ''$'' \<notin> set (content skill)" by (rule b)
  qed
  then have s3: "replaceAll (?pre @ ?n @ ?mid @ ''%{content}'' @ ?post)
                   ''%{content}'' (content skill)
                   = ?pre @ ?n @ ?mid @ content skill @ ?post"
    by simp
  let ?rpre = "''<skill_resources>'' @ nl @ ''IMPORTANT: The skill ''"
  let ?rmid = "'' may reference certain resource files. Use their full paths:'' @ nl @ nl"
  let ?rpost = "nl @ ''</skill_resources>''"
  let ?paths = "str_join nl resourcePaths"
  have j1: "replaceAll (?rmid @ ''%{paths}'' @ ?rpost) ''%{name}'' ?n
              = ?rmid @ ''%{paths}'' @ ?rpost"
  proof -
    have "replaceAll (?rmid @ CHR ''%'' # (''{paths}'' @ ?rpost)) ''%{name}'' ?n
            = ?rmid @ CHR ''%'' # (''{paths}'' @ ?rpost)"
      by (rule replaceAll_inert) (simp_all add: nl_def)
    then show ?thesis by simp
  qed
  have "replaceAll (?rpre @ ''%{name}'' @ (?rmid @ ''%{paths}'' @ ?rpost)) ''%{name}'' ?n
            = ?rpre @ ?n @ (?rmid @ ''%{paths}'' @ ?rpost)"
  proof (rule replaceAll_once)
    show "CHR ''%'' \<notin> set ?rpre" by (simp add: nl_def)
    show "replaceAll (?rmid @ ''%{paths}'' @ ?rpost) ''%{name}'' ?n
            = ?rmid @ ''%{paths}'' @ ?rpost" by (rule j1)
    show "CHR ''$'' \<notin> set ?n" by (rule n1)
  qed
  then have r1: "replaceAll RESOURCES_PROMPT ''%{name}'' ?n
                   = ?rpre @ ?n @ ?rmid @ ''%{paths}'' @ ?rpost"
    by (simp add: RESOURCES_PROMPT_def)
  have d: "CHR ''$'' \<notin> set ?paths"
    using ps by (intro str_join_dollar_free) (simp_all add: nl_def)
  have j2: "replaceAll ?rpost ''%{paths}'' ?paths = ?rpost"
    by (rule replaceAll_free) (simp add: nl_def)
  have "replaceAll ((?rpre @ ?n @ ?rmid) @ ''%{paths}'' @ ?rpost) ''%{paths}'' ?paths
            = (?rpre @ ?n @ ?rmid) @ ?paths @ ?rpost"
  proof (rule replaceAll_once)
    show "CHR ''%'' \<notin> set (?rpre @ ?n @ ?rmid)" using n2 by (simp add: nl_def)
    show "replaceAll ?rpost ''%{paths}'' ?paths = ?rpost" by (rule j2)
    show "CHR ''$'' \<notin> set ?paths" by (rule d)
  qed
  then have r2: "replaceAll (?rpre @ ?n @ ?rmid @ ''%{paths}'' @ ?rpost) ''%{paths}'' ?paths
                   = ?rpre @ ?n @ ?rmid @ ?paths @ ?rpost"
    by simp
  show ?thesis
    unfolding render_prompt_def Let_def s1 s2 s3 r1 r2 by simp
qed

text \<open>
  Claim C5. The payload is to contain the first block with the name and the body of the
  bundle, and the second block, with every resource path on a line of its own, if and
  only if there are resources. The code inserts these texts with \<^verbatim>\<open>replaceAll\<close>, which
  expands the dollar patterns of what it inserts: the body \<^verbatim>\<open>echo $$\<close> is rendered as
  \<^verbatim>\<open>echo $\<close>, and the resource \<^verbatim>\<open>a$&b.txt\<close> is listed as \<^verbatim>\<open>a%{paths}b.txt\<close>. The
  theorem evaluates the code at these two inputs.
\<close>

theorem render_prompt_dollar:
  "render_prompt
      \<lparr>name = ''demo'', fullPath = ''/r/skills/demo'', toolName = ''skills_demo'',
       description = ''A demo skill for testing purposes.'',
       allowedTools = None, metadata = None, license = None,
       content = ''echo $$'', path = ''/r/skills/demo/SKILL.md''\<rparr> []
     = ''<skill name='' @ dquote @ ''demo'' @ dquote @ ''>'' @ nl @ nl
       @ ''echo $'' @ nl @ nl @ ''</skill>''
   \<and> render_prompt
      \<lparr>name = ''demo'', fullPath = ''/r/skills/demo'', toolName = ''skills_demo'',
       description = ''A demo skill for testing purposes.'',
       allowedTools = None, metadata = None, license = None,
       content = ''# Hello'', path = ''/r/skills/demo/SKILL.md''\<rparr>
      [''/r/skills/demo/a$&b.txt'']
     = ''<skill name='' @ dquote @ ''demo'' @ dquote @ ''>'' @ nl @ nl
       @ ''# Hello'' @ nl @ nl @ ''</skill>'' @ nl @ nl
       @ ''<skill_resources>'' @ nl
       @ ''IMPORTANT: The skill demo may reference certain resource files. Use their full paths:''
       @ nl @ nl
       @ ''/r/skills/demo/a%{paths}b.txt'' @ nl
       @ ''</skill_resources>''"
  by code_simp

end
